theory Spec2Isabelle
  imports Complex_Main
begin

section \<open>Date-range chunking of the OASIS downloader\<close>

text \<open>
  The development embeds \<^verbatim>\<open>split_dates_by_limit\<close> of \<^verbatim>\<open>helpers.py\<close>
  (lines 108 to 178), the function that cuts a date range into the sub-ranges one call of
  the grid operator's API accepts, and the two library calls it is built on.

  A pandas \<^verbatim>\<open>Timestamp\<close> is a signed 64-bit count of nanoseconds since 1970-01-01
  00:00 and a \<^verbatim>\<open>Timedelta\<close> is a signed 64-bit count of nanoseconds. Both are
  modelled as an \<^typ>\<open>int\<close> together with the range the library allows, from
  \<open>- (2 ^ 63 - 1)\<close> to \<open>2 ^ 63 - 1\<close>: the Timestamps from 21 September 1677 to 11 April
  2262 and the Timedeltas of up to 106751 days and some hours. An operation whose result
  leaves the range raises, and the model returns the error. \<^verbatim>\<open>pd.Timedelta(1)\<close>,
  whose unit defaults to the nanosecond, is \<open>1\<close>.

  The function returns a value and may print: its result is the pair of the returned
  value and the lines written to the standard output, or the error it raises.
\<close>

subsection \<open>Errors and time values\<close>

datatype error = ValueError | ZeroDivisionError | OverflowError | OutOfBoundsDatetime

definition NS_PER_DAY :: int where
  "NS_PER_DAY = 86400000000000"

definition INT64_MAX :: int where
  "INT64_MAX = 9223372036854775807"

definition in_range :: "int \<Rightarrow> bool" where
  \<comment> \<open>the values of a Timestamp and of a Timedelta; \<open>- 2 ^ 63\<close> stands for
      \<^verbatim>\<open>NaT\<close> and is none\<close>
  "in_range t = (- INT64_MAX \<le> t \<and> t \<le> INT64_MAX)"

definition Timedelta_days :: "int \<Rightarrow> error + int" where
  \<comment> \<open>\<^verbatim>\<open>pd.Timedelta(days=n)\<close>: raises beyond 106751 days\<close>
  "Timedelta_days n =
     (if in_range (n * NS_PER_DAY) then Inr (n * NS_PER_DAY) else Inl OverflowError)"

definition Timestamp_add :: "int \<Rightarrow> int \<Rightarrow> error + int" where
  \<comment> \<open>Timestamp \<open>+\<close> Timedelta; with a negated second argument, Timestamp \<open>-\<close> Timedelta\<close>
  "Timestamp_add t d = (if in_range (t + d) then Inr (t + d) else Inl OutOfBoundsDatetime)"

definition Timestamp_diff :: "int \<Rightarrow> int \<Rightarrow> error + int" where
  \<comment> \<open>Timestamp \<open>-\<close> Timestamp, a Timedelta\<close>
  "Timestamp_diff t u = (if in_range (t - u) then Inr (t - u) else Inl OutOfBoundsDatetime)"

definition Timestamp_of_day :: "int \<Rightarrow> int" where
  \<comment> \<open>the Timestamp of 00:00 on the day that lies \<open>d\<close> days after 1970-01-01\<close>
  "Timestamp_of_day d = d * NS_PER_DAY"

definition date_of :: "int \<Rightarrow> int" where
  \<comment> \<open>the calendar day (in days after 1970-01-01) a Timestamp falls on\<close>
  "date_of t = t div NS_PER_DAY"

definition ceil_div :: "int \<Rightarrow> int \<Rightarrow> error + int" where
  \<comment> \<open>\<^verbatim>\<open>math.ceil(a / b)\<close> for two Timedeltas: the division raises on a zero divisor.
      The quotient is a float in the code and exact here; for whole days in range the two
      agree, since the float's error is below \<open>2 ^ - 36\<close> and a quotient of day counts
      that is no integer lies at least \<open>2 ^ - 17\<close> from one\<close>
  "ceil_div a b = (if b = 0 then Inl ZeroDivisionError else Inr (- ((- a) div b)))"

definition critical_message :: string where
  \<comment> \<open>the line the call \<^verbatim>\<open>print('Critical', '...')\<close> of line 171 writes\<close>
  "critical_message = ''Critical Failed to split start and end dates for API calls.''"

subsection \<open>The splitting function\<close>

text \<open>
  The test of line 164 and the value of line 169. In the test the subtraction is only
  carried out when the first comparison holds, as \<^verbatim>\<open>and\<close> does.
\<close>

definition keeps_appending :: "int \<Rightarrow> int \<Rightarrow> int \<Rightarrow> error + bool" where
  "keeps_appending limit dt_end_date new_end_date =
     (if new_end_date < dt_end_date then
        (case Timestamp_diff dt_end_date new_end_date of
           Inl err \<Rightarrow> Inl err
         | Inr remaining \<Rightarrow> Inr (remaining > limit))
      else Inr False)"

definition last_end_date :: "int \<Rightarrow> int \<Rightarrow> error + int" where
  "last_end_date dt_end_date new_end_date =
     (case Timestamp_diff dt_end_date new_end_date of
        Inl err \<Rightarrow> Inl err
      | Inr remaining \<Rightarrow> Timestamp_add new_end_date remaining)"

text \<open>
  The \<^verbatim>\<open>while\<close> loop of lines 157 to 169 inside the \<^verbatim>\<open>try\<close> block of lines 156
  to 171. Each round appends one start date, moves \<^verbatim>\<open>new_start_date\<close> on, and
  appends one end date; \<^verbatim>\<open>new_end_date\<close> moves on only in the first branch. When
  a step of a round raises, the handler prints its line and the loop is left with the
  lists as they are at that point: the start date of the round is already appended, its
  end date is not. The loop runs while the list of start dates is shorter than the chunk
  count, so the measure is the difference of the two.
\<close>

function split_loop ::
  "int \<Rightarrow> int \<Rightarrow> int \<Rightarrow> int list \<Rightarrow> int list \<Rightarrow> int \<Rightarrow> int \<Rightarrow>
   (int list \<times> int list) \<times> string list" where
  "split_loop limit dt_end_date splits start_dates end_dates new_start_date new_end_date =
     (if int (length start_dates) < splits then
        (case Timestamp_add new_start_date limit of
           Inl err \<Rightarrow> ((start_dates @ [new_start_date], end_dates), [critical_message])
         | Inr new_start_date' \<Rightarrow>
             (case keeps_appending limit dt_end_date new_end_date of
                Inl err \<Rightarrow> ((start_dates @ [new_start_date], end_dates), [critical_message])
              | Inr True \<Rightarrow>
                  (case Timestamp_add new_end_date limit of
                     Inl err \<Rightarrow>
                       ((start_dates @ [new_start_date], end_dates), [critical_message])
                   | Inr new_end_date' \<Rightarrow>
                       split_loop limit dt_end_date splits
                         (start_dates @ [new_start_date]) (end_dates @ [new_end_date'])
                         new_start_date' new_end_date')
              | Inr False \<Rightarrow>
                  (case last_end_date dt_end_date new_end_date of
                     Inl err \<Rightarrow>
                       ((start_dates @ [new_start_date], end_dates), [critical_message])
                   | Inr e \<Rightarrow>
                       split_loop limit dt_end_date splits
                         (start_dates @ [new_start_date]) (end_dates @ [e])
                         new_start_date' new_end_date)))
      else ((start_dates, end_dates), []))"
  by pat_completeness auto
termination
  by (relation "measure (\<lambda>(limit, dt_end_date, splits, start_dates, end_dates, s, e).
        nat (splits - int (length start_dates)))") auto

declare split_loop.simps [simp del]

text \<open>
  Lines 137 to 171, on parsed values: \<open>None\<close> when the span is shorter than the limit,
  otherwise the two lists of Timestamps and what the loop printed. The subtraction of
  line 137, the additions of lines 144 and 145 and the chunk count of line 153 stand
  outside the \<^verbatim>\<open>try\<close> block, so their errors leave the function.
\<close>

definition split_timestamps ::
  "int \<Rightarrow> int \<Rightarrow> int \<Rightarrow> error + ((int list \<times> int list) \<times> string list) option" where
  "split_timestamps limit dt_start_date dt_end_date =
     (case Timestamp_diff dt_end_date dt_start_date of
        Inl err \<Rightarrow> Inl err
      | Inr dt_delta \<Rightarrow>
          if limit > dt_delta then Inr None
          else
            (case Timestamp_add dt_start_date limit of
               Inl err \<Rightarrow> Inl err
             | Inr new_start_date \<Rightarrow>
                 (case Timestamp_add new_start_date (- 1) of
                    Inl err \<Rightarrow> Inl err
                  | Inr new_end_date \<Rightarrow>
                      (case ceil_div dt_delta limit of
                         Inl err \<Rightarrow> Inl err
                       | Inr splits \<Rightarrow>
                           Inr (Some (split_loop limit dt_end_date splits
                                        [dt_start_date] [new_end_date]
                                        new_start_date new_end_date))))))"

text \<open>
  The whole function. The two library calls are parameters: \<open>to_datetime\<close> is
  \<^verbatim>\<open>pd.to_datetime(s, format=f)\<close>, which raises or returns a Timestamp, and
  \<open>strftime\<close> is \<^verbatim>\<open>Timestamp.strftime\<close>, written with the format first so that
  \<open>strftime date_format\<close> is the rendering the two list comprehensions of lines 174 and 175
  apply. The limit is converted on line 132, before the dates are parsed. The returned
  dictionary is a map from its two keys to the lists of rendered dates; beside it stands
  what was printed.
\<close>

definition split_dates_by_limit ::
  "(string \<Rightarrow> string \<Rightarrow> error + int) \<Rightarrow> (string \<Rightarrow> int \<Rightarrow> string) \<Rightarrow>
   string \<Rightarrow> string \<Rightarrow> int \<Rightarrow> string \<Rightarrow>
   error + ((string \<rightharpoonup> string list) option \<times> string list)" where
  "split_dates_by_limit to_datetime strftime start_date end_date limit date_format =
     (case Timedelta_days limit of
        Inl err \<Rightarrow> Inl err
      | Inr limit \<Rightarrow>
          (case to_datetime start_date date_format of
             Inl err \<Rightarrow> Inl err
           | Inr dt_start_date \<Rightarrow>
               (case to_datetime end_date date_format of
                  Inl err \<Rightarrow> Inl err
                | Inr dt_end_date \<Rightarrow>
                    (case split_timestamps limit dt_start_date dt_end_date of
                       Inl err \<Rightarrow> Inl err
                     | Inr None \<Rightarrow> Inr (None, [])
                     | Inr (Some ((start_dates, end_dates), printed)) \<Rightarrow>
                         Inr (Some [''start_dates'' \<mapsto> map (strftime date_format) start_dates,
                                    ''end_dates'' \<mapsto> map (strftime date_format) end_dates],
                              printed)))))"

subsection \<open>The library calls on numeric date formats\<close>

text \<open>
  A model of \<^verbatim>\<open>pd.to_datetime\<close> and \<^verbatim>\<open>strftime\<close> for formats made of the
  directives \<^verbatim>\<open>%Y\<close>, \<^verbatim>\<open>%y\<close>, \<^verbatim>\<open>%m\<close>, \<^verbatim>\<open>%d\<close>, \<^verbatim>\<open>%%\<close> and
  separator characters, which covers both formats the repository uses
  (\<^verbatim>\<open>%m/%d/%y\<close> and \<^verbatim>\<open>%Y%m%d\<close>). The calendar is the proleptic Gregorian one,
  counted in days from 1970-01-01. Parsing follows the library's pattern matching: a
  month or a day is two digits where that gives a number in range and one digit
  otherwise, with the shorter reading tried when the rest of the text does not match
  after the longer one; a separator matches itself, and a date outside the range of a
  Timestamp is refused. The model is meant for non-empty text and for formats in which
  each of the four directives occurs at most once and the separators are neither letters
  nor white space; other directives, the library's case-insensitive and white-space
  matching and its reading of the empty text as \<^verbatim>\<open>NaT\<close> are outside it. The general
  results below do not rest on this model: it only supplies the concrete calls.
\<close>

definition is_leap :: "int \<Rightarrow> bool" where
  "is_leap y = (if y mod 100 = 0 then y mod 400 = 0 else y mod 4 = 0)"

definition days_in_month :: "int \<Rightarrow> int \<Rightarrow> int" where
  "days_in_month y m =
     (if m = 2 then (if is_leap y then 29 else 28)
      else if m = 4 \<or> m = 6 \<or> m = 9 \<or> m = 11 then 30 else 31)"

definition days_from_civil :: "int \<Rightarrow> int \<Rightarrow> int \<Rightarrow> int" where
  "days_from_civil y m d =
     (let y' = (if m \<le> 2 then y - 1 else y);
          era = y' div 400;
          yoe = y' - era * 400;
          doy = (153 * (if m > 2 then m - 3 else m + 9) + 2) div 5 + d - 1;
          doe = yoe * 365 + yoe div 4 - yoe div 100 + doy
      in era * 146097 + doe - 719468)"

definition civil_from_days :: "int \<Rightarrow> int \<times> int \<times> int" where
  "civil_from_days z =
     (let z' = z + 719468;
          era = z' div 146097;
          doe = z' - era * 146097;
          yoe = (doe - doe div 1460 + doe div 36524 - doe div 146096) div 365;
          doy = doe - (365 * yoe + yoe div 4 - yoe div 100);
          mp = (5 * doy + 2) div 153;
          d = doy - (153 * mp + 2) div 5 + 1;
          m = (if mp < 10 then mp + 3 else mp - 9)
      in (if m \<le> 2 then yoe + era * 400 + 1 else yoe + era * 400, m, d))"

definition is_digit :: "char \<Rightarrow> bool" where
  "is_digit c = (48 \<le> (of_char c :: nat) \<and> (of_char c :: nat) \<le> 57)"

definition digit_val :: "char \<Rightarrow> int" where
  "digit_val c = int (of_char c) - 48"

fun take_digits :: "nat \<Rightarrow> string \<Rightarrow> int \<Rightarrow> (int \<times> string) list" where
  \<comment> \<open>exactly \<open>n\<close> decimal digits at the head of the text, as a number\<close>
  "take_digits 0 cs acc = [(acc, cs)]"
| "take_digits (Suc n) [] acc = []"
| "take_digits (Suc n) (c # cs) acc =
     (if is_digit c then take_digits n cs (10 * acc + digit_val c) else [])"

definition re_directive :: "char \<Rightarrow> string \<Rightarrow> (int \<times> string) list" where
  \<comment> \<open>the ways a directive's pattern matches at the head of the text, in the order the
      pattern tries them: two digits before one\<close>
  "re_directive x cs =
     (if x = CHR ''Y'' then take_digits 4 cs 0
      else if x = CHR ''y'' then take_digits 2 cs 0
      else if x = CHR ''m'' then
        filter (\<lambda>(v, r). 1 \<le> v \<and> v \<le> 12) (take_digits 2 cs 0) @
        filter (\<lambda>(v, r). 1 \<le> v) (take_digits 1 cs 0)
      else if x = CHR ''d'' then
        filter (\<lambda>(v, r). 1 \<le> v \<and> v \<le> 31) (take_digits 2 cs 0) @
        filter (\<lambda>(v, r). 1 \<le> v) (take_digits 1 cs 0) @
        (case cs of c # cs' \<Rightarrow>
           if c = CHR '' '' then filter (\<lambda>(v, r). 1 \<le> v) (take_digits 1 cs' 0) else []
         | [] \<Rightarrow> [])
      else [])"

definition set_field :: "char \<Rightarrow> int \<Rightarrow> int \<times> int \<times> int \<Rightarrow> int \<times> int \<times> int" where
  \<comment> \<open>a two-digit year is 2000 to 2068 or 1969 to 1999\<close>
  "set_field x v f =
     (case f of (y, m, d) \<Rightarrow>
        if x = CHR ''Y'' then (v, m, d)
        else if x = CHR ''y'' then ((if v \<le> 68 then 2000 + v else 1900 + v), m, d)
        else if x = CHR ''m'' then (y, v, d)
        else (y, m, v))"

fun strptime_match :: "string \<Rightarrow> string \<Rightarrow> int \<times> int \<times> int \<Rightarrow> ((int \<times> int \<times> int) \<times> string) option"
  and strptime_alts ::
    "string \<Rightarrow> char \<Rightarrow> (int \<times> string) list \<Rightarrow> int \<times> int \<times> int \<Rightarrow> ((int \<times> int \<times> int) \<times> string) option"
where
  "strptime_match [] cs f = Some (f, cs)"
| "strptime_match [c] cs f =
     (case cs of [] \<Rightarrow> None
      | c' # cs' \<Rightarrow> if c \<noteq> CHR ''%'' \<and> c' = c then Some (f, cs') else None)"
| "strptime_match (c # x # fmt) cs f =
     (if c = CHR ''%'' then
        (if x = CHR ''%'' then
           (case cs of [] \<Rightarrow> None
            | c' # cs' \<Rightarrow> if c' = CHR ''%'' then strptime_match fmt cs' f else None)
         else strptime_alts fmt x (re_directive x cs) f)
      else
        (case cs of [] \<Rightarrow> None
         | c' # cs' \<Rightarrow> if c' = c then strptime_match (x # fmt) cs' f else None))"
| "strptime_alts fmt x [] f = None"
| "strptime_alts fmt x ((v, cs) # alts) f =
     (case strptime_match fmt cs (set_field x v f) of
        Some r \<Rightarrow> Some r
      | None \<Rightarrow> strptime_alts fmt x alts f)"

definition pd_to_datetime :: "string \<Rightarrow> string \<Rightarrow> error + int" where
  \<comment> \<open>fields that the format leaves out default to 1900-01-01; text left over after the
      match, and a day the month does not have, raise \<^verbatim>\<open>ValueError\<close>; a date that is
      no Timestamp raises \<^verbatim>\<open>OutOfBoundsDatetime\<close>\<close>
  "pd_to_datetime s date_format =
     (case strptime_match date_format s (1900, 1, 1) of
        None \<Rightarrow> Inl ValueError
      | Some ((y, m, d), rest) \<Rightarrow>
          if rest = [] \<and> 1 \<le> y \<and> d \<le> days_in_month y m
          then (if in_range (Timestamp_of_day (days_from_civil y m d))
                then Inr (Timestamp_of_day (days_from_civil y m d))
                else Inl OutOfBoundsDatetime)
          else Inl ValueError)"

definition digit_char :: "int \<Rightarrow> char" where
  "digit_char n = ''0123456789'' ! nat (n mod 10)"

definition pad2 :: "int \<Rightarrow> string" where
  "pad2 n = [digit_char (n div 10), digit_char n]"

definition pad4 :: "int \<Rightarrow> string" where
  "pad4 n = [digit_char (n div 1000), digit_char (n div 100), digit_char (n div 10), digit_char n]"

definition directive_text :: "char \<Rightarrow> int \<times> int \<times> int \<Rightarrow> string" where
  \<comment> \<open>what a directive prints; a character that is no directive of the model is copied\<close>
  "directive_text x f =
     (case f of (y, m, d) \<Rightarrow>
        if x = CHR ''Y'' then pad4 y
        else if x = CHR ''y'' then pad2 (y mod 100)
        else if x = CHR ''m'' then pad2 m
        else if x = CHR ''d'' then pad2 d
        else if x = CHR ''%'' then [CHR ''%'']
        else [CHR ''%'', x])"

fun strftime_fields :: "string \<Rightarrow> int \<times> int \<times> int \<Rightarrow> string" where
  "strftime_fields [] f = []"
| "strftime_fields [c] f = [c]"
| "strftime_fields (c # x # fmt) f =
     (if c = CHR ''%'' then directive_text x f @ strftime_fields fmt f
      else c # strftime_fields (x # fmt) f)"

definition pd_strftime :: "string \<Rightarrow> int \<Rightarrow> string" where
  "pd_strftime date_format t = strftime_fields date_format (civil_from_days (date_of t))"

section \<open>Properties\<close>

subsection \<open>The chunk count\<close>

text \<open>
  For a positive divisor the count of line 153 is the least \<open>c\<close> with \<open>a \<le> c * L\<close>.
\<close>

lemma ceil_upper: "0 < (L::int) \<Longrightarrow> a \<le> (- ((- a) div L)) * L"
proof -
  assume L: "0 < L"
  have "(- a) div L * L + (- a) mod L = - a" by simp
  moreover have "0 \<le> (- a) mod L" using L by simp
  ultimately have "(- a) div L * L \<le> - a" by linarith
  then show ?thesis by simp
qed

lemma ceil_lower: "0 < (L::int) \<Longrightarrow> (- ((- a) div L) - 1) * L < a"
proof -
  assume L: "0 < L"
  have "(- a) div L * L + (- a) mod L = - a" by simp
  moreover have "(- a) mod L < L" using L by simp
  ultimately have "- a < (- a) div L * L + L" by linarith
  then show ?thesis by (simp add: algebra_simps)
qed

lemma ceil_pos: "0 < (L::int) \<Longrightarrow> L \<le> a \<Longrightarrow> 1 \<le> - ((- a) div L)"
proof -
  assume L: "0 < L" and a: "L \<le> a"
  have "a \<le> (- ((- a) div L)) * L" using L by (rule ceil_upper)
  with L a have "0 < (- ((- a) div L)) * L" by linarith
  then have "0 < - ((- a) div L)" using L by (rule zero_less_mult_pos2)
  then show ?thesis by linarith
qed

lemma before_last:
  assumes L: "0 < (L::int)" and i: "int i + 1 < - ((- a) div L)"
  shows "(int i + 1) * L \<le> a"
proof -
  from i have "int i + 1 \<le> - ((- a) div L) - 1" by simp
  then have "(int i + 1) * L \<le> (- ((- a) div L) - 1) * L" using L by (simp add: mult_right_mono)
  moreover have "(- ((- a) div L) - 1) * L < a" using L by (rule ceil_lower)
  ultimately show ?thesis by linarith
qed

subsection \<open>Values in range\<close>

lemma in_range_between:
  "in_range a \<Longrightarrow> in_range b \<Longrightarrow> a \<le> x \<Longrightarrow> x \<le> b \<Longrightarrow> in_range x"
  by (simp add: in_range_def)

lemma in_range_0: "in_range 0"
  by (simp add: in_range_def INT64_MAX_def)

lemma Timestamp_add_ok: "in_range (t + d) \<Longrightarrow> Timestamp_add t d = Inr (t + d)"
  by (simp add: Timestamp_add_def)

lemma Timestamp_add_raises: "\<not> in_range (t + d) \<Longrightarrow> Timestamp_add t d = Inl OutOfBoundsDatetime"
  by (simp add: Timestamp_add_def)

lemma Timestamp_diff_ok: "in_range (t - u) \<Longrightarrow> Timestamp_diff t u = Inr (t - u)"
  by (simp add: Timestamp_diff_def)

lemma Timestamp_diff_raises: "\<not> in_range (t - u) \<Longrightarrow> Timestamp_diff t u = Inl OutOfBoundsDatetime"
  by (simp add: Timestamp_diff_def)

subsection \<open>One round of the loop\<close>

text \<open>
  A round either appends to both lists and goes on (in the first or in the second
  branch), or raises when \<^verbatim>\<open>new_start_date\<close> is moved past the last Timestamp, after
  the start date was appended and before the end date is.
\<close>

lemma round_appends:
  assumes "int (length ss) < n" and "in_range (a + L)" and "b < e" and "in_range (e - b)"
    and "L < e - b" and "in_range (b + L)"
  shows "split_loop L e n ss es a b = split_loop L e n (ss @ [a]) (es @ [b + L]) (a + L) (b + L)"
  using assms
  by (subst split_loop.simps)
     (simp add: Timestamp_add_ok Timestamp_diff_ok keeps_appending_def)

lemma round_closes:
  assumes "int (length ss) < n" and "in_range (a + L)" and "b < e" and "in_range (e - b)"
    and "e - b \<le> L" and "in_range e"
  shows "split_loop L e n ss es a b = split_loop L e n (ss @ [a]) (es @ [e]) (a + L) b"
  using assms
  by (subst split_loop.simps)
     (simp add: Timestamp_add_ok Timestamp_diff_ok keeps_appending_def last_end_date_def)

lemma round_raises:
  assumes "int (length ss) < n" and "\<not> in_range (a + L)"
  shows "split_loop L e n ss es a b = ((ss @ [a], es), [critical_message])"
  using assms by (subst split_loop.simps) (simp add: Timestamp_add_raises)

lemma loop_done:
  assumes "\<not> int (length ss) < n"
  shows "split_loop L e n ss es a b = ((ss, es), [])"
  using assms by (subst split_loop.simps) simp


lemma round_inner:
  assumes L: "0 < L" and lo: "(int n - 1) * L < e - s"
    and rs: "in_range s" and re: "in_range e" and rd: "in_range (e - s)"
    and len: "length ss = j" and j1: "1 \<le> j" and jn: "Suc j < n"
  shows "split_loop L e (int n) ss es (s + int j * L) (s + int j * L - 1) =
         split_loop L e (int n) (ss @ [s + int j * L]) (es @ [s + int (Suc j) * L - 1])
           (s + int (Suc j) * L) (s + int (Suc j) * L - 1)"
proof -
  from jn have "int j + 1 \<le> int n - 1" by simp
  then have "(int j + 1) * L \<le> (int n - 1) * L" using L by (simp add: mult_right_mono)
  with lo have "(int j + 1) * L < e - s" by linarith
  then have far: "int j * L + L < e - s" by (simp add: algebra_simps)
  have "1 * L \<le> int j * L" using j1 L by (intro mult_right_mono) simp_all
  then have jl: "L \<le> int j * L" by simp
  have c0: "int (length ss) < int n" using len jn by simp
  have c1: "in_range (s + int j * L + L)"
    using far jl L by (intro in_range_between[OF rs re]) linarith+
  have c2: "s + int j * L - 1 < e" using far L by linarith
  have c3: "in_range (e - (s + int j * L - 1))"
    using far jl L by (intro in_range_between[OF in_range_0 rd]) linarith+
  have c4: "L < e - (s + int j * L - 1)" using far by linarith
  have c5: "in_range (s + int j * L - 1 + L)"
    using far jl L by (intro in_range_between[OF rs re]) linarith+
  have e1: "s + int j * L + L = s + int (Suc j) * L" by (simp add: algebra_simps)
  have e2: "s + int j * L - 1 + L = s + int (Suc j) * L - 1" by (simp add: algebra_simps)
  have "split_loop L e (int n) ss es (s + int j * L) (s + int j * L - 1) =
        split_loop L e (int n) (ss @ [s + int j * L]) (es @ [s + int j * L - 1 + L])
          (s + int j * L + L) (s + int j * L - 1 + L)"
    using c0 c1 c2 c3 c4 c5 by (rule round_appends)
  then show ?thesis by (simp only: e1 e2)
qed

subsection \<open>The loop in closed form\<close>

text \<open>
  With \<open>n\<close> the chunk count, chunk \<open>i\<close> starts at \<open>s + i * L\<close> and ends one nanosecond
  before the next start, or at the overall end where that comes first. Every value the
  loop computes lies between the start and the end, except the last
  \<^verbatim>\<open>new_start_date\<close>, \<open>s + n * L\<close>, which no chunk uses: when it is no Timestamp,
  the last round raises and the last end date is missing. The inductions are on the
  number of rounds left.
\<close>

lemma split_loop_closed:
  assumes L: "0 < L"
    and lo: "(int n - 1) * L < e - s"
    and hi: "e - s \<le> int n * L"
    and rs: "in_range s" and re: "in_range e" and rd: "in_range (e - s)"
    and ok: "in_range (s + int n * L)"
    and len: "length ss = j" and j1: "1 \<le> j" and jn: "j \<le> n"
  shows "split_loop L e (int n) ss es (s + int j * L) (s + int j * L - 1) =
           ((ss @ map (\<lambda>i. s + int i * L) [j..<n],
             es @ map (\<lambda>i. min (s + (int i + 1) * L - 1) e) [j..<n]), [])"
  using len j1 jn
proof (induction "n - j" arbitrary: j ss es)
  case 0
  then have "j = n" by simp
  with 0 show ?case by (simp add: loop_done)
next
  case (Suc k)
  then have jlt: "j < n" by simp
  have up: "[j..<n] = j # [Suc j..<n]" using jlt by (simp add: upt_conv_Cons)
  show ?case
  proof (cases "Suc j < n")
    case True
    then have "(int j + 1) \<le> int n - 1" by simp
    then have "(int j + 1) * L \<le> (int n - 1) * L" using L by (simp add: mult_right_mono)
    with lo have "(int j + 1) * L < e - s" by linarith
    then have mn: "min (s + (int j + 1) * L - 1) e = s + int (Suc j) * L - 1"
      by (simp add: algebra_simps min_def)
    have IH: "split_loop L e (int n) (ss @ [s + int j * L]) (es @ [s + int (Suc j) * L - 1])
               (s + int (Suc j) * L) (s + int (Suc j) * L - 1) =
             (((ss @ [s + int j * L]) @ map (\<lambda>i. s + int i * L) [Suc j..<n],
               (es @ [s + int (Suc j) * L - 1]) @
                 map (\<lambda>i. min (s + (int i + 1) * L - 1) e) [Suc j..<n]), [])"
      using Suc.hyps(1)[of "Suc j" "ss @ [s + int j * L]"] Suc.hyps(2) Suc.prems True by simp
    have "split_loop L e (int n) ss es (s + int j * L) (s + int j * L - 1) =
             (((ss @ [s + int j * L]) @ map (\<lambda>i. s + int i * L) [Suc j..<n],
               (es @ [s + int (Suc j) * L - 1]) @
                 map (\<lambda>i. min (s + (int i + 1) * L - 1) e) [Suc j..<n]), [])"
      using round_inner[OF L lo rs re rd Suc.prems(1) Suc.prems(2) True] by (simp only: IH)
    then show ?thesis by (simp only: up mn list.map append_assoc append_Cons append_Nil)
  next
    case False
    with jlt have last: "n = Suc j" by simp
    have "1 * L \<le> int j * L" using Suc.prems(2) L by (intro mult_right_mono) simp_all
    then have jl: "L \<le> int j * L" by simp
    have below: "int j * L < e - s" using lo last by simp
    have c0: "int (length ss) < int n" using Suc.prems(1) jlt by simp
    have c1: "in_range (s + int j * L + L)" using ok last by (simp add: algebra_simps)
    have c2: "s + int j * L - 1 < e" using below by linarith
    have c3: "in_range (e - (s + int j * L - 1))"
      using below jl L by (intro in_range_between[OF in_range_0 rd]) linarith+
    have fin: "\<not> int (length (ss @ [s + int j * L])) < int n"
      using Suc.prems(1) last by simp
    show ?thesis
    proof (cases "e - s = int n * L")
      case True
      then have eq: "e = s + int j * L + L" using last by (simp add: algebra_simps)
      have c4: "L < e - (s + int j * L - 1)" using eq by simp
      have c5: "in_range (s + int j * L - 1 + L)"
        using eq jl L by (intro in_range_between[OF rs re]) linarith+
      have "split_loop L e (int n) ss es (s + int j * L) (s + int j * L - 1) =
            split_loop L e (int n) (ss @ [s + int j * L]) (es @ [s + int j * L - 1 + L])
              (s + int j * L + L) (s + int j * L - 1 + L)"
        using c0 c1 c2 c3 c4 c5 by (rule round_appends)
      also have "\<dots> = ((ss @ [s + int j * L], es @ [s + int j * L - 1 + L]), [])"
        using fin by (rule loop_done)
      finally show ?thesis using last eq by (simp add: algebra_simps min_def)
    next
      case False
      with hi last have lt: "e < s + int j * L + L" by (simp add: algebra_simps)
      then have c4: "e - (s + int j * L - 1) \<le> L" by simp
      have "split_loop L e (int n) ss es (s + int j * L) (s + int j * L - 1) =
            split_loop L e (int n) (ss @ [s + int j * L]) (es @ [e])
              (s + int j * L + L) (s + int j * L - 1)"
        using c0 c1 c2 c3 c4 re by (rule round_closes)
      also have "\<dots> = ((ss @ [s + int j * L], es @ [e]), [])"
        using fin by (rule loop_done)
      finally show ?thesis using last lt by (simp add: algebra_simps min_def)
    qed
  qed
qed

lemma split_loop_overflow:
  assumes L: "0 < L"
    and lo: "(int n - 1) * L < e - s"
    and rs: "in_range s" and re: "in_range e" and rd: "in_range (e - s)"
    and bad: "\<not> in_range (s + int n * L)"
    and len: "length ss = j" and j1: "1 \<le> j" and jn: "j < n"
  shows "split_loop L e (int n) ss es (s + int j * L) (s + int j * L - 1) =
           ((ss @ map (\<lambda>i. s + int i * L) [j..<n],
             es @ map (\<lambda>i. min (s + (int i + 1) * L - 1) e) [j..<n - 1]),
            [critical_message])"
  using len j1 jn
proof (induction "n - Suc j" arbitrary: j ss es)
  case 0
  then have last: "n = Suc j" by simp
  have c0: "int (length ss) < int n" using "0.prems"(1) last by simp
  have c1: "\<not> in_range (s + int j * L + L)" using bad last by (simp add: algebra_simps)
  have "split_loop L e (int n) ss es (s + int j * L) (s + int j * L - 1) =
          ((ss @ [s + int j * L], es), [critical_message])"
    using c0 c1 by (rule round_raises)
  then show ?case using last by simp
next
  case (Suc k)
  then have mid: "Suc j < n" by simp
  then have jlt: "j < n" by simp
  have up: "[j..<n] = j # [Suc j..<n]" using jlt by (simp add: upt_conv_Cons)
  have up': "[j..<n - 1] = j # [Suc j..<n - 1]" using mid by (simp add: upt_conv_Cons)
  from mid have "(int j + 1) \<le> int n - 1" by simp
  then have "(int j + 1) * L \<le> (int n - 1) * L" using L by (simp add: mult_right_mono)
  with lo have "(int j + 1) * L < e - s" by linarith
  then have mn: "min (s + (int j + 1) * L - 1) e = s + int (Suc j) * L - 1"
    by (simp add: algebra_simps min_def)
  have IH: "split_loop L e (int n) (ss @ [s + int j * L]) (es @ [s + int (Suc j) * L - 1])
             (s + int (Suc j) * L) (s + int (Suc j) * L - 1) =
           (((ss @ [s + int j * L]) @ map (\<lambda>i. s + int i * L) [Suc j..<n],
             (es @ [s + int (Suc j) * L - 1]) @
               map (\<lambda>i. min (s + (int i + 1) * L - 1) e) [Suc j..<n - 1]),
            [critical_message])"
    using Suc.hyps(1)[of "Suc j" "ss @ [s + int j * L]"] Suc.hyps(2) Suc.prems mid by simp
  have "split_loop L e (int n) ss es (s + int j * L) (s + int j * L - 1) =
           (((ss @ [s + int j * L]) @ map (\<lambda>i. s + int i * L) [Suc j..<n],
             (es @ [s + int (Suc j) * L - 1]) @
               map (\<lambda>i. min (s + (int i + 1) * L - 1) e) [Suc j..<n - 1]),
            [critical_message])"
    using round_inner[OF L lo rs re rd Suc.prems(1) Suc.prems(2) mid] by (simp only: IH)
  then show ?case by (simp only: up up' mn list.map append_assoc append_Cons append_Nil)
qed


lemma split_timestamps_closed:
  assumes L: "0 < L" and span: "L \<le> e - s"
    and rs: "in_range s" and re: "in_range e" and rd: "in_range (e - s)"
  shows "split_timestamps L s e =
           Inr (Some
             (if in_range (s + int (nat (- ((- (e - s)) div L))) * L)
              then ((map (\<lambda>i. s + int i * L) [0..<nat (- ((- (e - s)) div L))],
                     map (\<lambda>i. min (s + (int i + 1) * L - 1) e)
                       [0..<nat (- ((- (e - s)) div L))]), [])
              else ((map (\<lambda>i. s + int i * L) [0..<nat (- ((- (e - s)) div L))],
                     map (\<lambda>i. min (s + (int i + 1) * L - 1) e)
                       [0..<nat (- ((- (e - s)) div L)) - 1]), [critical_message])))"
proof -
  define n where "n = nat (- ((- (e - s)) div L))"
  have c1: "1 \<le> - ((- (e - s)) div L)" using L span by (rule ceil_pos)
  then have n: "int n = - ((- (e - s)) div L)" and n1: "1 \<le> n" by (simp_all add: n_def)
  have lo: "(int n - 1) * L < e - s" unfolding n using L by (rule ceil_lower)
  have hi: "e - s \<le> int n * L" unfolding n using L by (rule ceil_upper)
  have r1: "in_range (s + L)" using L span by (intro in_range_between[OF rs re]) linarith+
  have r2: "in_range (s + L + - 1)" using L span by (intro in_range_between[OF rs re]) linarith+
  have pre: "split_timestamps L s e =
          Inr (Some (split_loop L e (int n) [s] [s + L - 1] (s + L) (s + L - 1)))"
    using L span rd r1 r2
    by (simp add: split_timestamps_def ceil_div_def Timestamp_diff_ok Timestamp_add_ok n)
  have up: "[0..<n] = 0 # [1..<n]" using n1 by (simp add: upt_conv_Cons)
  have m0': "min (s + (int 0 + 1) * L - 1) e = s + L - 1" using span by (simp add: min_def)
  have i0: "s + int 0 * L = s" by simp
  have i1: "s + int 1 * L = s + L" by simp
  show ?thesis
  proof (cases "in_range (s + int n * L)")
    case True
    have loop: "split_loop L e (int n) [s] [s + L - 1] (s + int 1 * L) (s + int 1 * L - 1) =
           (([s] @ map (\<lambda>i. s + int i * L) [1..<n],
             [s + L - 1] @ map (\<lambda>i. min (s + (int i + 1) * L - 1) e) [1..<n]), [])"
      using split_loop_closed[OF L lo hi rs re rd True, of "[s]" 1 "[s + L - 1]"] n1 by simp
    have res: "split_loop L e (int n) [s] [s + L - 1] (s + L) (s + L - 1) =
           ((map (\<lambda>i. s + int i * L) [0..<n],
             map (\<lambda>i. min (s + (int i + 1) * L - 1) e) [0..<n]), [])"
      unfolding up list.map i0 m0' using loop by (simp only: i1 append_Cons append_Nil)
    show ?thesis unfolding n_def[symmetric] using True by (simp only: pre res if_True)
  next
    case False
    have n2: "1 < n"
    proof (rule ccontr)
      assume "\<not> 1 < n"
      with n1 have "n = 1" by simp
      with False r1 show False by simp
    qed
    have up1: "[0..<n - 1] = 0 # [1..<n - 1]" using n2 by (simp add: upt_conv_Cons)
    have loop: "split_loop L e (int n) [s] [s + L - 1] (s + int 1 * L) (s + int 1 * L - 1) =
           (([s] @ map (\<lambda>i. s + int i * L) [1..<n],
             [s + L - 1] @ map (\<lambda>i. min (s + (int i + 1) * L - 1) e) [1..<n - 1]),
            [critical_message])"
      using split_loop_overflow[OF L lo rs re rd False, of "[s]" 1 "[s + L - 1]"] n2 by simp
    have res: "split_loop L e (int n) [s] [s + L - 1] (s + L) (s + L - 1) =
           ((map (\<lambda>i. s + int i * L) [0..<n],
             map (\<lambda>i. min (s + (int i + 1) * L - 1) e) [0..<n - 1]), [critical_message])"
      unfolding up up1 list.map i0 m0' using loop by (simp only: i1 append_Cons append_Nil)
    show ?thesis unfolding n_def[symmetric] using False by (simp only: pre res if_False)
  qed
qed

subsection \<open>Whole days\<close>

text \<open>
  Dates parse to midnight, so every Timestamp in play is a whole number of days, or one
  nanosecond less. Read as calendar days, chunk \<open>i\<close> runs from \<open>sd + i * limit\<close> to
  \<open>sd + (i + 1) * limit - 1\<close>, cut off at the overall end. The days that are Timestamps
  are those from \<open>- 106751\<close> (22 September 1677) to \<open>106751\<close> (11 April 2262), and a
  Timedelta holds up to 106751 days.
\<close>

lemma NS_PER_DAY_gt1: "1 < NS_PER_DAY"
  by (simp add: NS_PER_DAY_def)

lemma day_floor: "(x * NS_PER_DAY - 1) div NS_PER_DAY = x - 1"
proof -
  have nz: "NS_PER_DAY \<noteq> 0" using NS_PER_DAY_gt1 by simp
  have eq: "x * NS_PER_DAY - 1 = (NS_PER_DAY - 1) + (x - 1) * NS_PER_DAY" by (simp add: algebra_simps)
  have small: "(NS_PER_DAY - 1) div NS_PER_DAY = 0"
    using NS_PER_DAY_gt1 by simp
  have "(x * NS_PER_DAY - 1) div NS_PER_DAY = ((NS_PER_DAY - 1) + (x - 1) * NS_PER_DAY) div NS_PER_DAY"
    by (simp only: eq)
  also have "\<dots> = (x - 1) + (NS_PER_DAY - 1) div NS_PER_DAY"
    using nz by (rule div_mult_self1)
  also have "\<dots> = x - 1" by (simp only: small add_0_right)
  finally show ?thesis .
qed

lemma day_exact: "(x * NS_PER_DAY) div NS_PER_DAY = x"
  using NS_PER_DAY_gt1 by simp

lemma in_range_day: "in_range (d * NS_PER_DAY) \<longleftrightarrow> - 106751 \<le> d \<and> d \<le> 106751"
  by (auto simp add: in_range_def INT64_MAX_def NS_PER_DAY_def)

lemma in_range_Timestamp_of_day:
  "in_range (Timestamp_of_day d) \<longleftrightarrow> - 106751 \<le> d \<and> d \<le> 106751"
  unfolding Timestamp_of_day_def by (rule in_range_day)

lemma Timedelta_days_ok:
  "- 106751 \<le> n \<Longrightarrow> n \<le> 106751 \<Longrightarrow> Timedelta_days n = Inr (n * NS_PER_DAY)"
  by (simp add: Timedelta_days_def in_range_day)

lemma Timedelta_days_raises:
  "106751 < n \<Longrightarrow> Timedelta_days n = Inl OverflowError"
  by (simp add: Timedelta_days_def in_range_day)

lemma date_of_start:
  "date_of (Timestamp_of_day sd + int i * (limit * NS_PER_DAY)) = sd + int i * limit"
proof -
  have "Timestamp_of_day sd + int i * (limit * NS_PER_DAY) = (sd + int i * limit) * NS_PER_DAY"
    by (simp add: Timestamp_of_day_def algebra_simps)
  then show ?thesis by (simp add: date_of_def day_exact)
qed

lemma date_of_end:
  "date_of (min (Timestamp_of_day sd + (int i + 1) * (limit * NS_PER_DAY) - 1) (Timestamp_of_day ed))
     = min (sd + (int i + 1) * limit - 1) ed"
proof -
  define X where "X = sd + (int i + 1) * limit"
  have t: "Timestamp_of_day sd + (int i + 1) * (limit * NS_PER_DAY) - 1 = X * NS_PER_DAY - 1"
    by (simp add: Timestamp_of_day_def X_def algebra_simps)
  have D: "1 < NS_PER_DAY" by (rule NS_PER_DAY_gt1)
  have iff: "X * NS_PER_DAY - 1 \<le> ed * NS_PER_DAY \<longleftrightarrow> X \<le> ed"
  proof
    assume a: "X * NS_PER_DAY - 1 \<le> ed * NS_PER_DAY"
    show "X \<le> ed"
    proof (rule ccontr)
      assume "\<not> X \<le> ed"
      then have "ed + 1 \<le> X" by simp
      then have "(ed + 1) * NS_PER_DAY \<le> X * NS_PER_DAY" using D by (simp add: mult_right_mono)
      with a D show False by (simp add: algebra_simps)
    qed
  next
    assume "X \<le> ed"
    then have "X * NS_PER_DAY \<le> ed * NS_PER_DAY" using D by (simp add: mult_right_mono)
    then show "X * NS_PER_DAY - 1 \<le> ed * NS_PER_DAY" by simp
  qed
  have e: "(ed * NS_PER_DAY) div NS_PER_DAY = ed" by (rule day_exact)
  show ?thesis
    unfolding t X_def[symmetric]
    using iff by (simp add: min_def date_of_def day_floor e Timestamp_of_day_def)
qed

lemma ceil_days:
  "- ((- (Timestamp_of_day ed - Timestamp_of_day sd)) div (limit * NS_PER_DAY))
     = - ((- (ed - sd)) div limit)"
proof -
  have nz: "NS_PER_DAY \<noteq> 0" using NS_PER_DAY_gt1 by simp
  have "- (Timestamp_of_day ed - Timestamp_of_day sd) = (- (ed - sd)) * NS_PER_DAY"
    by (simp add: Timestamp_of_day_def algebra_simps)
  moreover have "((- (ed - sd)) * NS_PER_DAY) div (limit * NS_PER_DAY) = (- (ed - sd)) div limit"
    using nz by (rule div_mult_mult2)
  ultimately show ?thesis by (simp only:)
qed


lemma split_days_ex:
  assumes lim: "0 < limit" and span: "limit \<le> ed - sd"
    and lo: "- 106751 \<le> sd" and hi: "ed \<le> 106751" and fit: "ed - sd \<le> 106751"
  shows "\<exists>ss es out.
           split_timestamps (limit * NS_PER_DAY) (Timestamp_of_day sd) (Timestamp_of_day ed)
             = Inr (Some ((ss, es), out))
         \<and> int (length ss) = - ((- (ed - sd)) div limit)
         \<and> ss ! 0 = Timestamp_of_day sd
         \<and> 0 < length es
         \<and> (\<forall>i<length ss. date_of (ss ! i) = sd + int i * limit)
         \<and> (\<forall>i<length es. date_of (es ! i) = min (sd + (int i + 1) * limit - 1) ed)
         \<and> (sd + (- ((- (ed - sd)) div limit)) * limit \<le> 106751
               \<and> length es = length ss \<and> out = []
             \<or> 106751 < sd + (- ((- (ed - sd)) div limit)) * limit
               \<and> Suc (length es) = length ss \<and> out = [critical_message])"
proof -
  define n where "n = nat (- ((- (ed - sd)) div limit))"
  define s where "s = Timestamp_of_day sd"
  define e where "e = Timestamp_of_day ed"
  define L where "L = limit * NS_PER_DAY"
  define ss where "ss = map (\<lambda>i. s + int i * L) [0..<n]"
  define es where "es = map (\<lambda>i. min (s + (int i + 1) * L - 1) e) [0..<n]"
  define es' where "es' = map (\<lambda>i. min (s + (int i + 1) * L - 1) e) [0..<n - 1]"
  have D: "0 < NS_PER_DAY" using NS_PER_DAY_gt1 by simp
  have Lpos: "0 < L" using lim D by (simp add: L_def)
  have "limit * NS_PER_DAY \<le> (ed - sd) * NS_PER_DAY" using span D by (simp add: mult_right_mono)
  then have S: "L \<le> e - s"
    by (simp add: L_def s_def e_def Timestamp_of_day_def algebra_simps)
  have sd_hi: "sd \<le> 106751" using lim span hi by linarith
  have ed_lo: "- 106751 \<le> ed" using lim span lo by linarith
  have rs: "in_range s" unfolding s_def using lo sd_hi by (simp add: in_range_Timestamp_of_day)
  have re: "in_range e" unfolding e_def using ed_lo hi by (simp add: in_range_Timestamp_of_day)
  have "e - s = (ed - sd) * NS_PER_DAY"
    by (simp add: s_def e_def Timestamp_of_day_def algebra_simps)
  moreover have "in_range ((ed - sd) * NS_PER_DAY)"
    using lim span fit by (simp add: in_range_day)
  ultimately have rd: "in_range (e - s)" by simp
  have cd: "- ((- (e - s)) div L) = - ((- (ed - sd)) div limit)"
    unfolding s_def e_def L_def by (rule ceil_days)
  have c1: "1 \<le> - ((- (ed - sd)) div limit)" using lim span by (rule ceil_pos)
  then have n: "int n = - ((- (ed - sd)) div limit)" and n1: "0 < n" by (simp_all add: n_def)
  have nn: "nat (- ((- (e - s)) div L)) = n" by (simp only: cd n_def)
  have top: "s + int n * L = (sd + int n * limit) * NS_PER_DAY"
    by (simp add: s_def L_def Timestamp_of_day_def algebra_simps)
  have "0 \<le> int n * limit" using lim by simp
  then have low: "- 106751 \<le> sd + int n * limit" using lo by linarith
  have ok_iff: "in_range (s + int n * L) \<longleftrightarrow> sd + int n * limit \<le> 106751"
    unfolding top using low by (simp add: in_range_day)
  have closed: "split_timestamps L s e =
      Inr (Some (if in_range (s + int n * L) then ((ss, es), [])
                 else ((ss, es'), [critical_message])))"
    using split_timestamps_closed[OF Lpos S rs re rd]
    by (simp only: nn ss_def es_def es'_def)
  have l1: "length ss = n" and l2: "length es = n" and l3: "length es' = n - 1"
    by (simp_all add: ss_def es_def es'_def)
  have s0: "ss ! 0 = Timestamp_of_day sd" using n1 by (simp add: ss_def s_def)
  have sdt: "\<forall>i<length ss. date_of (ss ! i) = sd + int i * limit"
    by (simp add: ss_def s_def L_def date_of_start)
  have edt: "\<forall>i<length es. date_of (es ! i) = min (sd + (int i + 1) * limit - 1) ed"
    by (simp add: es_def s_def e_def L_def date_of_end)
  have edt': "\<forall>i<length es'. date_of (es' ! i) = min (sd + (int i + 1) * limit - 1) ed"
    by (simp add: es'_def s_def e_def L_def date_of_end)
  show ?thesis
  proof (cases "in_range (s + int n * L)")
    case True
    then have r: "split_timestamps (limit * NS_PER_DAY) (Timestamp_of_day sd) (Timestamp_of_day ed)
             = Inr (Some ((ss, es), []))"
      using closed by (simp add: L_def s_def e_def)
    from True ok_iff have fits: "sd + (- ((- (ed - sd)) div limit)) * limit \<le> 106751"
      by (simp add: n)
    have pos: "0 < length es" using l2 n1 by simp
    have nl: "int (length ss) = - ((- (ed - sd)) div limit)" using l1 n by simp
    have ll: "length es = length ss" using l1 l2 by simp
    from r nl s0 pos sdt edt fits ll show ?thesis by blast
  next
    case False
    then have r: "split_timestamps (limit * NS_PER_DAY) (Timestamp_of_day sd) (Timestamp_of_day ed)
             = Inr (Some ((ss, es'), [critical_message]))"
      using closed by (simp add: L_def s_def e_def)
    from False ok_iff have over: "106751 < sd + (- ((- (ed - sd)) div limit)) * limit"
      by (simp add: n)
    have "n \<noteq> 1"
    proof
      assume "n = 1"
      then have "sd + int n * limit = sd + limit" by simp
      also have "\<dots> \<le> ed" using span by linarith
      finally have "sd + int n * limit \<le> 106751" using hi by linarith
      with False ok_iff show False by simp
    qed
    with n1 have n2: "1 < n" by simp
    have pos: "0 < length es'" using l3 n2 by simp
    have nl: "int (length ss) = - ((- (ed - sd)) div limit)" using l1 n by simp
    have ll: "Suc (length es') = length ss" using l1 l3 n1 by simp
    from r nl s0 pos sdt edt' over ll show ?thesis by blast
  qed
qed

text \<open>
  Unless the limit divides the span, the last round takes the second branch and the last
  end date is the overall end.
\<close>

lemma last_end_unless_multiple:
  assumes lim: "0 < limit" and span: "limit \<le> ed - sd"
    and lo: "- 106751 \<le> sd" and fit: "ed - sd \<le> 106751" and top: "ed + limit \<le> 106752"
    and rem: "(ed - sd) mod limit \<noteq> 0"
  shows "\<exists>ss es. split_timestamps (limit * NS_PER_DAY) (Timestamp_of_day sd) (Timestamp_of_day ed)
                     = Inr (Some ((ss, es), []))
           \<and> es \<noteq> [] \<and> date_of (last es) = ed"
proof -
  define c where "c = - ((- (ed - sd)) div limit)"
  have hi: "ed \<le> 106751" using lim top by linarith
  have lw: "(c - 1) * limit < ed - sd" unfolding c_def using lim by (rule ceil_lower)
  then have "c * limit < ed - sd + limit" by (simp add: algebra_simps)
  with top have noover: "sd + c * limit \<le> 106751" by linarith
  obtain ss es out where r: "split_timestamps (limit * NS_PER_DAY) (Timestamp_of_day sd)
                     (Timestamp_of_day ed) = Inr (Some ((ss, es), out))"
    and n: "int (length ss) = c"
    and pos: "0 < length es"
    and e: "\<forall>i<length es. date_of (es ! i) = min (sd + (int i + 1) * limit - 1) ed"
    and alt: "sd + c * limit \<le> 106751 \<and> length es = length ss \<and> out = []
             \<or> 106751 < sd + c * limit \<and> Suc (length es) = length ss \<and> out = [critical_message]"
    unfolding c_def using split_days_ex[OF lim span lo hi fit] by blast
  from alt noover have l: "length es = length ss" and o: "out = []" by auto
  have ne: "es \<noteq> []" using pos by auto
  have up: "ed - sd \<le> c * limit" unfolding c_def using lim by (rule ceil_upper)
  have "(c * limit) mod limit = 0" by simp
  with rem have "ed - sd \<noteq> c * limit" by metis
  with up have lt: "ed - sd < c * limit" by linarith
  have li: "length es - 1 < length es" using pos by simp
  have ci: "int (length es - 1) + 1 = c" using n l pos by linarith
  have "date_of (es ! (length es - 1)) = min (sd + (int (length es - 1) + 1) * limit - 1) ed"
    using e li by blast
  also have "\<dots> = min (sd + c * limit - 1) ed" by (simp only: ci)
  also have "\<dots> = ed" using lt by simp
  finally have "date_of (es ! (length es - 1)) = ed" .
  moreover have "last es = es ! (length es - 1)" using ne by (rule last_conv_nth)
  ultimately have "date_of (last es) = ed" by simp
  with r o ne show ?thesis by blast
qed

subsection \<open>A limit that is not positive\<close>

text \<open>
  With a negative limit the chunk count is at most 1, so the loop does not run and
  nothing is printed.
\<close>

lemma nonpositive_limit_one_round:
  assumes "L < 0" and "L \<le> a"
  shows "- ((- a) div L) \<le> (1::int)"
proof -
  have nz: "L \<noteq> 0" using assms(1) by simp
  have "- a \<le> (- 1) * L" using assms(2) by simp
  then have "((- 1) * L) div L \<le> (- a) div L" using assms(1) by (rule zdiv_mono1_neg)
  moreover have "((- 1) * L) div L = - 1" using nz by (rule nonzero_mult_div_cancel_right)
  ultimately show ?thesis by linarith
qed

lemma split_timestamps_nonpositive:
  assumes "L \<le> 0" and "split_timestamps L s e = Inr (Some (r, out))"
  shows "out = []"
proof -
  from assms(2) obtain d a b where d: "Timestamp_diff e s = Inr d" and nl: "\<not> L > d"
    and L0: "L \<noteq> 0"
    and r: "split_loop L e (- ((- d) div L)) [s] [b] a b = (r, out)"
    by (auto simp add: split_timestamps_def ceil_div_def split: sum.splits if_splits)
  from assms(1) L0 have neg: "L < 0" by simp
  from nl have "L \<le> d" by simp
  with neg have "- ((- d) div L) \<le> 1" by (rule nonpositive_limit_one_round)
  then have "\<not> int (length [s]) < - ((- d) div L)" by simp
  then have "split_loop L e (- ((- d) div L)) [s] [b] a b = (([s], [b]), [])" by (rule loop_done)
  with r show ?thesis by simp
qed

subsection \<open>What raises before the loop\<close>

lemma split_timestamps_span_raises:
  "\<not> in_range (e - s) \<Longrightarrow> split_timestamps L s e = Inl OutOfBoundsDatetime"
  by (simp add: split_timestamps_def Timestamp_diff_raises)

lemma split_timestamps_SomeD:
  assumes "split_timestamps L s e = Inr (Some x)"
  shows "in_range (e - s) \<and> L \<le> e - s"
  using assms
  by (auto simp add: split_timestamps_def Timestamp_diff_def split: if_splits sum.splits)

lemma in_range_before_midnight:
  "- 106751 \<le> d \<Longrightarrow> d \<le> 106751 \<Longrightarrow> in_range (Timestamp_of_day d + - 1)"
  by (simp add: in_range_def INT64_MAX_def Timestamp_of_day_def NS_PER_DAY_def)

subsection \<open>From Timestamps to the returned dictionary\<close>

lemma split_dates_by_limit_Some:
  assumes "Timedelta_days limit = Inr L"
    and "to_datetime start_date date_format = Inr s"
    and "to_datetime end_date date_format = Inr e"
    and "split_timestamps L s e = Inr (Some ((ss, es), out))"
  shows "split_dates_by_limit to_datetime strftime start_date end_date limit date_format =
           Inr (Some [''start_dates'' \<mapsto> map (strftime date_format) ss,
                      ''end_dates'' \<mapsto> map (strftime date_format) es], out)"
  using assms by (simp add: split_dates_by_limit_def)

lemma split_dates_by_limit_None:
  assumes "Timedelta_days limit = Inr L"
    and "to_datetime start_date date_format = Inr s"
    and "to_datetime end_date date_format = Inr e"
    and "split_timestamps L s e = Inr None"
  shows "split_dates_by_limit to_datetime strftime start_date end_date limit date_format =
           Inr (None, [])"
  using assms by (simp add: split_dates_by_limit_def)

lemma split_dates_by_limit_raises:
  assumes "Timedelta_days limit = Inr L"
    and "to_datetime start_date date_format = Inr s"
    and "to_datetime end_date date_format = Inr e"
    and "split_timestamps L s e = Inl err"
  shows "split_dates_by_limit to_datetime strftime start_date end_date limit date_format = Inl err"
  using assms by (simp add: split_dates_by_limit_def)

subsection \<open>Values of the library model\<close>

text \<open>
  The dates the examples below use, as days after 1970-01-01: 1 January 2017 is day 17167,
  31 December 2018 is day 17896, and 11 April 2262, the last day that is a Timestamp, is
  day 106751.
\<close>

lemma parse_170101: "pd_to_datetime ''01/01/17'' ''%m/%d/%y'' = Inr (Timestamp_of_day 17167)"
  by code_simp

lemma parse_170115: "pd_to_datetime ''01/15/17'' ''%m/%d/%y'' = Inr (Timestamp_of_day 17181)"
  by code_simp

lemma parse_170131: "pd_to_datetime ''01/31/17'' ''%m/%d/%y'' = Inr (Timestamp_of_day 17197)"
  by code_simp

lemma parse_170302: "pd_to_datetime ''03/02/17'' ''%m/%d/%y'' = Inr (Timestamp_of_day 17227)"
  by code_simp

lemma parse_181231: "pd_to_datetime ''12/31/18'' ''%m/%d/%y'' = Inr (Timestamp_of_day 17896)"
  by code_simp

lemma parse_iso_fails: "pd_to_datetime ''2017-01-01'' ''%m/%d/%y'' = Inl ValueError"
  by code_simp

lemma parse_22620101: "pd_to_datetime ''22620101'' ''%Y%m%d'' = Inr (Timestamp_of_day 106651)"
  by code_simp

lemma parse_22620301: "pd_to_datetime ''22620301'' ''%Y%m%d'' = Inr (Timestamp_of_day 106710)"
  by code_simp

lemma parse_22620411: "pd_to_datetime ''22620411'' ''%Y%m%d'' = Inr (Timestamp_of_day 106751)"
  by code_simp

lemma parse_17010908: "pd_to_datetime ''17010908'' ''%Y%m%d'' = Inr (Timestamp_of_day (- 98000))"
  by code_simp

lemma parse_20300327: "pd_to_datetime ''20300327'' ''%Y%m%d'' = Inr (Timestamp_of_day 22000)"
  by code_simp

lemma days_90: "Timedelta_days 90 = Inr 7776000000000000" by code_simp

lemma days_60: "Timedelta_days 60 = Inr 5184000000000000" by code_simp

lemma days_30: "Timedelta_days 30 = Inr 2592000000000000" by code_simp

lemma days_minus_1: "Timedelta_days (- 1) = Inr (- 86400000000000)" by code_simp

lemma days_60000: "Timedelta_days 60000 = Inr 5184000000000000000" by code_simp

lemma days_106752: "Timedelta_days 106752 = Inl OverflowError" by code_simp

lemma split_docstring:
  "split_timestamps 7776000000000000 (Timestamp_of_day 17167) (Timestamp_of_day 17896) =
     Inr (Some
       (([1483228800000000000, 1491004800000000000, 1498780800000000000,
          1506556800000000000, 1514332800000000000, 1522108800000000000,
          1529884800000000000, 1537660800000000000, 1545436800000000000],
         [1491004799999999999, 1498780799999999999, 1506556799999999999,
          1514332799999999999, 1522108799999999999, 1529884799999999999,
          1537660799999999999, 1545436799999999999, 1546214400000000000]), []))"
  by code_simp

lemma render_docstring_starts:
  "map (pd_strftime ''%m/%d/%y'')
     [1483228800000000000, 1491004800000000000, 1498780800000000000,
      1506556800000000000, 1514332800000000000, 1522108800000000000,
      1529884800000000000, 1537660800000000000, 1545436800000000000] =
   [''01/01/17'', ''04/01/17'', ''06/30/17'', ''09/28/17'', ''12/27/17'',
    ''03/27/18'', ''06/25/18'', ''09/23/18'', ''12/22/18'']"
  by code_simp

lemma render_docstring_ends:
  "map (pd_strftime ''%m/%d/%y'')
     [1491004799999999999, 1498780799999999999, 1506556799999999999,
      1514332799999999999, 1522108799999999999, 1529884799999999999,
      1537660799999999999, 1545436799999999999, 1546214400000000000] =
   [''03/31/17'', ''06/29/17'', ''09/27/17'', ''12/26/17'', ''03/26/18'',
    ''06/24/18'', ''09/22/18'', ''12/21/18'', ''12/31/18'']"
  by code_simp

lemma split_one_month:
  "split_timestamps 2592000000000000 (Timestamp_of_day 17167) (Timestamp_of_day 17197) =
     Inr (Some (([1483228800000000000], [1485820799999999999]), []))"
  by code_simp

lemma render_one_month:
  "map (pd_strftime ''%m/%d/%y'') [1483228800000000000] = [''01/01/17'']"
  "map (pd_strftime ''%m/%d/%y'') [1485820799999999999] = [''01/30/17'']"
  by code_simp+

lemma split_negative_limit:
  "split_timestamps (- 86400000000000) (Timestamp_of_day 17167) (Timestamp_of_day 17167) =
     Inr (Some (([1483228800000000000], [1483142399999999999]), []))"
  by code_simp

lemma render_negative_limit:
  "map (pd_strftime ''%m/%d/%y'') [1483142399999999999] = [''12/30/16'']"
  by code_simp

lemma split_2262_by_60:
  "split_timestamps 5184000000000000 (Timestamp_of_day 106651) (Timestamp_of_day 106751) =
     Inr (Some (([9214646400000000000, 9219830400000000000], [9219830399999999999]),
                [critical_message]))"
  by code_simp

lemma render_2262_by_60:
  "map (pd_strftime ''%Y%m%d'') [9214646400000000000, 9219830400000000000]
     = [''22620101'', ''22620302'']"
  "map (pd_strftime ''%Y%m%d'') [9219830399999999999] = [''22620301'']"
  by code_simp+

lemma split_2262_by_30:
  "split_timestamps 2592000000000000 (Timestamp_of_day 106710) (Timestamp_of_day 106751) =
     Inr (Some (([9219744000000000000, 9222336000000000000], [9222335999999999999]),
                [critical_message]))"
  by code_simp

lemma render_2262_by_30:
  "map (pd_strftime ''%Y%m%d'') [9219744000000000000, 9222336000000000000]
     = [''22620301'', ''22620331'']"
  "map (pd_strftime ''%Y%m%d'') [9222335999999999999] = [''22620330'']"
  by code_simp+

lemma split_span_too_long:
  "split_timestamps 5184000000000000000 (Timestamp_of_day (- 98000)) (Timestamp_of_day 22000)
     = Inl OutOfBoundsDatetime"
  by code_simp

lemma in_range_17167: "in_range (Timestamp_of_day 17167)"
  by (simp add: in_range_Timestamp_of_day)

lemma in_range_17181: "in_range (Timestamp_of_day 17181)"
  by (simp add: in_range_Timestamp_of_day)

section \<open>The claims\<close>

text \<open>
  In the general statements \<open>to_datetime\<close> and \<open>strftime\<close> are arbitrary: the results
  hold for whatever the library calls compute. Where a claim speaks of days, the two dates
  are taken to parse to midnight (\<open>Timestamp_of_day\<close>), as date strings do, and the day a
  returned Timestamp falls on is read off with \<open>date_of\<close>; the function renders exactly
  these Timestamps with \<open>strftime\<close>. A parsed date is a Timestamp, so its day lies between
  \<open>- 106751\<close> and \<open>106751\<close>. The sub-intervals of a result are the pairs of a start date
  and the end date at the same index.
\<close>

text \<open>
  \<^bold>\<open>C1\<close> (the sub-intervals partition the range from start to end exactly, and the last
  end date is the original end). The code misses this when the span is an exact multiple
  of the limit. From 1 January 2017 to 31 January 2017 is 30 days; with a limit of 30 the
  chunk count is 1, the loop never runs, and the only chunk, set up before the loop to end
  at start + limit less one nanosecond, ends on 30 January: 31 January is in no
  sub-interval. Whenever the limit does not divide the span and no Timestamp leaves the
  range, the last end date is the original end (\<open>last_end_unless_multiple\<close>), and so it
  is in the docstring's example.
\<close>

theorem C1_exact_multiple_drops_end:
  "split_dates_by_limit pd_to_datetime pd_strftime ''01/01/17'' ''01/31/17'' 30 ''%m/%d/%y'' =
     Inr (Some [''start_dates'' \<mapsto> [''01/01/17''], ''end_dates'' \<mapsto> [''01/30/17'']], [])"
  by (simp only: split_dates_by_limit_Some[where to_datetime = pd_to_datetime
        and strftime = pd_strftime, OF days_30 parse_170101 parse_170131 split_one_month]
        render_one_month)

text \<open>
  \<^bold>\<open>C2\<close> (for dates that parse and a positive limit, the result is \<open>None\<close> exactly when
  end - start is strictly less than the limit; otherwise a dictionary with the two lists
  is returned). This holds for a limit of at most 106751 days, which
  \<^verbatim>\<open>pd.Timedelta\<close> accepts, and for two dates whose difference is a Timedelta. The test
  of line 140 decides; the order of start and end plays no part.
\<close>

theorem C2_none_iff_short:
  assumes "to_datetime start_date date_format = Inr s"
    and "to_datetime end_date date_format = Inr e"
    and "in_range s" and "in_range e" and "in_range (e - s)"
    and "0 < limit" and "limit \<le> 106751"
  shows "(split_dates_by_limit to_datetime strftime start_date end_date limit date_format
            = Inr (None, [])
            \<longleftrightarrow> e - s < limit * NS_PER_DAY)
       \<and> (limit * NS_PER_DAY \<le> e - s \<longrightarrow>
            (\<exists>ss es printed.
               split_dates_by_limit to_datetime strftime start_date end_date limit date_format =
               Inr (Some [''start_dates'' \<mapsto> map (strftime date_format) ss,
                          ''end_dates'' \<mapsto> map (strftime date_format) es], printed)))"
proof -
  have D: "0 < NS_PER_DAY" using NS_PER_DAY_gt1 by simp
  have L: "0 < limit * NS_PER_DAY" using assms(6) D by simp
  have T: "Timedelta_days limit = Inr (limit * NS_PER_DAY)"
    using assms(6,7) by (intro Timedelta_days_ok) simp_all
  show ?thesis
  proof (cases "e - s < limit * NS_PER_DAY")
    case True
    then have "split_timestamps (limit * NS_PER_DAY) s e = Inr None"
      using assms(5) by (simp add: split_timestamps_def Timestamp_diff_ok)
    with T assms(1,2)
    have "split_dates_by_limit to_datetime strftime start_date end_date limit date_format
            = Inr (None, [])"
      by (rule split_dates_by_limit_None)
    with True show ?thesis by simp
  next
    case False
    then have S: "limit * NS_PER_DAY \<le> e - s" by simp
    have "\<exists>x. split_timestamps (limit * NS_PER_DAY) s e = Inr (Some x)"
      using split_timestamps_closed[OF L S assms(3,4,5)] by (rule exI)
    then obtain ss es printed
      where "split_timestamps (limit * NS_PER_DAY) s e = Inr (Some ((ss, es), printed))"
      by (metis prod.exhaust)
    with T assms(1,2)
    have r: "split_dates_by_limit to_datetime strftime start_date end_date limit date_format =
               Inr (Some [''start_dates'' \<mapsto> map (strftime date_format) ss,
                          ''end_dates'' \<mapsto> map (strftime date_format) es], printed)"
      by (rule split_dates_by_limit_Some)
    then have "split_dates_by_limit to_datetime strftime start_date end_date limit date_format
                 \<noteq> Inr (None, [])"
      by simp
    with False r show ?thesis by blast
  qed
qed

theorem C2_witness:
  "pd_to_datetime ''01/01/17'' ''%m/%d/%y'' = Inr (Timestamp_of_day 17167)
   \<and> pd_to_datetime ''01/15/17'' ''%m/%d/%y'' = Inr (Timestamp_of_day 17181)
   \<and> in_range (Timestamp_of_day 17167) \<and> in_range (Timestamp_of_day 17181)
   \<and> in_range (Timestamp_of_day 17181 - Timestamp_of_day 17167)
   \<and> (0::int) < 90 \<and> (90::int) \<le> 106751
   \<and> Timestamp_of_day 17181 - Timestamp_of_day 17167 < 90 * NS_PER_DAY
   \<and> split_dates_by_limit pd_to_datetime pd_strftime ''01/01/17'' ''01/15/17'' 90 ''%m/%d/%y''
       = Inr (None, [])"
proof -
  have h1: "(0::int) < 90" and h2: "(90::int) \<le> 106751" by simp_all
  have d: "Timestamp_of_day 17181 - Timestamp_of_day 17167 = 14 * NS_PER_DAY"
    by (simp add: Timestamp_of_day_def)
  have rd: "in_range (Timestamp_of_day 17181 - Timestamp_of_day 17167)"
    unfolding d by (simp add: in_range_day)
  have short: "Timestamp_of_day 17181 - Timestamp_of_day 17167 < 90 * NS_PER_DAY"
    unfolding d by (simp add: NS_PER_DAY_def)
  have "split_dates_by_limit pd_to_datetime pd_strftime ''01/01/17'' ''01/15/17'' 90 ''%m/%d/%y''
          = Inr (None, [])"
    using C2_none_iff_short[where to_datetime = pd_to_datetime and strftime = pd_strftime,
            OF parse_170101 parse_170115 in_range_17167 in_range_17181 rd h1 h2] short
    by blast
  with parse_170101 parse_170115 in_range_17167 in_range_17181 rd h1 h2 short
  show ?thesis by blast
qed

text \<open>
  As the claim is stated it fails for a larger limit: the conversion of line 132 raises,
  where the claim has \<open>None\<close> returned for a span of 14 days.
\<close>

theorem C2_limit_too_large:
  "split_dates_by_limit pd_to_datetime pd_strftime ''01/01/17'' ''01/15/17'' 106752 ''%m/%d/%y'' =
     Inl OverflowError"
  by (simp add: split_dates_by_limit_def days_106752)

text \<open>
  \<^bold>\<open>C3\<close> (when end - start is at least the limit, both returned lists have exactly
  \<open>\<lceil>(end - start) / limit\<rceil>\<close> entries). This holds when the dates are at most 106751
  days apart and start plus that many limits is still a Timestamp, which is the value
  \<^verbatim>\<open>new_start_date\<close> has after the last round; nothing is printed then.
\<close>

theorem C3_chunk_count:
  assumes "to_datetime start_date date_format = Inr (Timestamp_of_day sd)"
    and "to_datetime end_date date_format = Inr (Timestamp_of_day ed)"
    and "0 < limit" and "limit \<le> ed - sd"
    and "- 106751 \<le> sd" and "ed - sd \<le> 106751"
    and "sd + \<lceil>real_of_int (ed - sd) / real_of_int limit\<rceil> * limit \<le> 106751"
  shows "\<exists>ss es.
           split_timestamps (limit * NS_PER_DAY) (Timestamp_of_day sd) (Timestamp_of_day ed)
             = Inr (Some ((ss, es), []))
         \<and> split_dates_by_limit to_datetime strftime start_date end_date limit date_format =
             Inr (Some [''start_dates'' \<mapsto> map (strftime date_format) ss,
                        ''end_dates'' \<mapsto> map (strftime date_format) es], [])
         \<and> int (length (map (strftime date_format) ss))
             = \<lceil>real_of_int (ed - sd) / real_of_int limit\<rceil>
         \<and> int (length (map (strftime date_format) es))
             = \<lceil>real_of_int (ed - sd) / real_of_int limit\<rceil>"
proof -
  define c where "c = - ((- (ed - sd)) div limit)"
  have ce: "\<lceil>real_of_int (ed - sd) / real_of_int limit\<rceil> = c"
    unfolding c_def by (rule ceiling_divide_eq_div)
  have top: "sd + c * limit \<le> 106751" using assms(7) by (simp only: ce)
  have "ed - sd \<le> c * limit" unfolding c_def using assms(3) by (rule ceil_upper)
  with top have hi: "ed \<le> 106751" by linarith
  have T: "Timedelta_days limit = Inr (limit * NS_PER_DAY)"
    using assms(3,4,6) by (intro Timedelta_days_ok) linarith+
  obtain ss es printed
    where r: "split_timestamps (limit * NS_PER_DAY) (Timestamp_of_day sd) (Timestamp_of_day ed)
                = Inr (Some ((ss, es), printed))"
    and n: "int (length ss) = c"
    and alt: "sd + c * limit \<le> 106751 \<and> length es = length ss \<and> printed = []
              \<or> 106751 < sd + c * limit \<and> Suc (length es) = length ss
                  \<and> printed = [critical_message]"
    unfolding c_def using split_days_ex[OF assms(3,4,5) hi assms(6)] by blast
  from alt top have l: "length es = length ss" and p: "printed = []" by auto
  have d: "split_dates_by_limit to_datetime strftime start_date end_date limit date_format =
             Inr (Some [''start_dates'' \<mapsto> map (strftime date_format) ss,
                        ''end_dates'' \<mapsto> map (strftime date_format) es], printed)"
    using T assms(1,2) r by (rule split_dates_by_limit_Some)
  from r d n l p ce show ?thesis by auto
qed

theorem C3_witness:
  "pd_to_datetime ''01/01/17'' ''%m/%d/%y'' = Inr (Timestamp_of_day 17167)
   \<and> pd_to_datetime ''12/31/18'' ''%m/%d/%y'' = Inr (Timestamp_of_day 17896)
   \<and> (0::int) < 90 \<and> (90::int) \<le> 17896 - 17167
   \<and> (- 106751::int) \<le> 17167 \<and> (17896::int) - 17167 \<le> 106751
   \<and> 17167 + \<lceil>real_of_int (17896 - 17167) / real_of_int 90\<rceil> * 90 \<le> 106751
   \<and> (\<exists>ss es.
           split_timestamps (90 * NS_PER_DAY) (Timestamp_of_day 17167) (Timestamp_of_day 17896)
             = Inr (Some ((ss, es), []))
         \<and> split_dates_by_limit pd_to_datetime pd_strftime ''01/01/17'' ''12/31/18'' 90 ''%m/%d/%y'' =
             Inr (Some [''start_dates'' \<mapsto> map (pd_strftime ''%m/%d/%y'') ss,
                        ''end_dates'' \<mapsto> map (pd_strftime ''%m/%d/%y'') es], [])
         \<and> int (length (map (pd_strftime ''%m/%d/%y'') ss)) = 9
         \<and> int (length (map (pd_strftime ''%m/%d/%y'') es)) = 9)"
proof -
  have h1: "(0::int) < 90" and h2: "(90::int) \<le> 17896 - 17167"
    and h3: "(- 106751::int) \<le> 17167" and h4: "(17896::int) - 17167 \<le> 106751"
    by simp_all
  have c: "\<lceil>real_of_int (17896 - 17167) / real_of_int 90\<rceil> = 9" by simp
  have h5: "17167 + \<lceil>real_of_int (17896 - 17167) / real_of_int 90\<rceil> * 90 \<le> 106751"
    unfolding c by simp
  show ?thesis
    using C3_chunk_count[where to_datetime = pd_to_datetime and strftime = pd_strftime,
            OF parse_170101 parse_181231 h1 h2 h3 h4 h5] parse_170101 parse_181231 h1 h2 h3 h4 h5
    unfolding c by blast
qed

text \<open>
  As the claim is stated it fails at the end of the Timestamp range. From 1 January 2262
  to 11 April 2262 is 100 days; with a limit of 60 the chunk count is 2. The one round of
  the loop appends the second start date and raises on line 160, where 2 March plus 60
  days is no Timestamp; the handler prints, and the result has two start dates and one
  end date.
\<close>

theorem C3_handler_cuts_end_dates:
  "split_dates_by_limit pd_to_datetime pd_strftime ''22620101'' ''22620411'' 60 ''%Y%m%d'' =
     Inr (Some [''start_dates'' \<mapsto> [''22620101'', ''22620302''],
                ''end_dates'' \<mapsto> [''22620301'']], [critical_message])"
  by (simp only: split_dates_by_limit_Some[where to_datetime = pd_to_datetime
        and strftime = pd_strftime, OF days_60 parse_22620101 parse_22620411 split_2262_by_60]
        render_2262_by_60)

text \<open>
  \<^bold>\<open>C4\<close> (consecutive sub-intervals are contiguous: an end date plus one day is the next
  start date, so there is neither an overlap nor a gap between two sub-intervals). A
  result is returned unless the dates are more than 106751 days apart, in which case the
  conversion of line 132 or the subtraction of line 137 raises. In every result each start
  date but the first has the end date before it, which is the day before; this includes
  the results that the handler of line 170 has cut short, where the last start date has
  no end date.
\<close>

theorem C4_contiguous:
  assumes "to_datetime start_date date_format = Inr (Timestamp_of_day sd)"
    and "to_datetime end_date date_format = Inr (Timestamp_of_day ed)"
    and "- 106751 \<le> sd" and "ed \<le> 106751"
    and "0 < limit" and "limit \<le> ed - sd"
  shows "106751 < ed - sd
         \<and> split_dates_by_limit to_datetime strftime start_date end_date limit date_format
             = Inl (if 106751 < limit then OverflowError else OutOfBoundsDatetime)
       \<or> ed - sd \<le> 106751
         \<and> (\<exists>ss es printed.
               split_timestamps (limit * NS_PER_DAY) (Timestamp_of_day sd) (Timestamp_of_day ed)
                 = Inr (Some ((ss, es), printed))
             \<and> split_dates_by_limit to_datetime strftime start_date end_date limit date_format =
                 Inr (Some [''start_dates'' \<mapsto> map (strftime date_format) ss,
                            ''end_dates'' \<mapsto> map (strftime date_format) es], printed)
             \<and> length es \<le> length ss
             \<and> (\<forall>i. Suc i < length ss \<longrightarrow>
                    i < length es \<and> date_of (es ! i) + 1 = date_of (ss ! Suc i)))"
proof (cases "ed - sd \<le> 106751")
  case fit: True
  have T: "Timedelta_days limit = Inr (limit * NS_PER_DAY)"
    using assms(5,6) fit by (intro Timedelta_days_ok) linarith+
  obtain ss es printed
    where r: "split_timestamps (limit * NS_PER_DAY) (Timestamp_of_day sd) (Timestamp_of_day ed)
                = Inr (Some ((ss, es), printed))"
    and n: "int (length ss) = - ((- (ed - sd)) div limit)"
    and s: "\<forall>i<length ss. date_of (ss ! i) = sd + int i * limit"
    and e: "\<forall>i<length es. date_of (es ! i) = min (sd + (int i + 1) * limit - 1) ed"
    and alt: "sd + (- ((- (ed - sd)) div limit)) * limit \<le> 106751
                \<and> length es = length ss \<and> printed = []
              \<or> 106751 < sd + (- ((- (ed - sd)) div limit)) * limit
                \<and> Suc (length es) = length ss \<and> printed = [critical_message]"
    using split_days_ex[OF assms(5,6,3,4) fit] by blast
  have d: "split_dates_by_limit to_datetime strftime start_date end_date limit date_format =
             Inr (Some [''start_dates'' \<mapsto> map (strftime date_format) ss,
                        ''end_dates'' \<mapsto> map (strftime date_format) es], printed)"
    using T assms(1,2) r by (rule split_dates_by_limit_Some)
  from alt have l: "length es \<le> length ss" and l': "length ss \<le> Suc (length es)" by auto
  have c: "i < length es \<and> date_of (es ! i) + 1 = date_of (ss ! Suc i)"
    if i: "Suc i < length ss" for i
  proof -
    from i l' have ie: "i < length es" by linarith
    from i n have "int i + 1 < - ((- (ed - sd)) div limit)" by linarith
    with assms(5) have "(int i + 1) * limit \<le> ed - sd" by (rule before_last)
    then have "min (sd + (int i + 1) * limit - 1) ed = sd + (int i + 1) * limit - 1" by simp
    moreover have "date_of (es ! i) = min (sd + (int i + 1) * limit - 1) ed" using e ie by simp
    moreover have "date_of (ss ! Suc i) = sd + int (Suc i) * limit" using s i by blast
    ultimately have "date_of (es ! i) + 1 = date_of (ss ! Suc i)" by (simp add: algebra_simps)
    with ie show ?thesis by simp
  qed
  from fit r d l c show ?thesis by blast
next
  case False
  then have long: "106751 < ed - sd" by simp
  have "split_dates_by_limit to_datetime strftime start_date end_date limit date_format
          = Inl (if 106751 < limit then OverflowError else OutOfBoundsDatetime)"
  proof (cases "106751 < limit")
    case True
    then show ?thesis by (simp add: split_dates_by_limit_def Timedelta_days_raises)
  next
    case small: False
    have T: "Timedelta_days limit = Inr (limit * NS_PER_DAY)"
      using assms(5) small by (intro Timedelta_days_ok) linarith+
    have "Timestamp_of_day ed - Timestamp_of_day sd = (ed - sd) * NS_PER_DAY"
      by (simp add: Timestamp_of_day_def algebra_simps)
    moreover have "\<not> in_range ((ed - sd) * NS_PER_DAY)" using long by (simp add: in_range_day)
    ultimately have "\<not> in_range (Timestamp_of_day ed - Timestamp_of_day sd)" by simp
    then have "split_timestamps (limit * NS_PER_DAY) (Timestamp_of_day sd) (Timestamp_of_day ed)
                 = Inl OutOfBoundsDatetime"
      by (rule split_timestamps_span_raises)
    with T assms(1,2)
    have "split_dates_by_limit to_datetime strftime start_date end_date limit date_format
            = Inl OutOfBoundsDatetime"
      by (rule split_dates_by_limit_raises)
    with small show ?thesis by simp
  qed
  with long show ?thesis by blast
qed

theorem C4_witness:
  "pd_to_datetime ''01/01/17'' ''%m/%d/%y'' = Inr (Timestamp_of_day 17167)
   \<and> pd_to_datetime ''12/31/18'' ''%m/%d/%y'' = Inr (Timestamp_of_day 17896)
   \<and> (- 106751::int) \<le> 17167 \<and> (17896::int) \<le> 106751
   \<and> (0::int) < 90 \<and> (90::int) \<le> 17896 - 17167
   \<and> (\<exists>ss es printed.
           split_timestamps (90 * NS_PER_DAY) (Timestamp_of_day 17167) (Timestamp_of_day 17896)
             = Inr (Some ((ss, es), printed))
         \<and> split_dates_by_limit pd_to_datetime pd_strftime ''01/01/17'' ''12/31/18'' 90 ''%m/%d/%y'' =
             Inr (Some [''start_dates'' \<mapsto> map (pd_strftime ''%m/%d/%y'') ss,
                        ''end_dates'' \<mapsto> map (pd_strftime ''%m/%d/%y'') es], printed)
         \<and> length es \<le> length ss
         \<and> (\<forall>i. Suc i < length ss \<longrightarrow>
                i < length es \<and> date_of (es ! i) + 1 = date_of (ss ! Suc i)))"
proof -
  have h1: "(- 106751::int) \<le> 17167" and h2: "(17896::int) \<le> 106751"
    and h3: "(0::int) < 90" and h4: "(90::int) \<le> 17896 - 17167"
    by simp_all
  have fit: "\<not> (106751::int) < 17896 - 17167" by simp
  show ?thesis
    using C4_contiguous[where to_datetime = pd_to_datetime and strftime = pd_strftime,
            OF parse_170101 parse_181231 h1 h2 h3 h4] parse_170101 parse_181231 h1 h2 h3 h4 fit
    by blast
qed

text \<open>
  \<^bold>\<open>C5\<close> (the first sub-interval runs from start to start + limit - 1 day; every
  sub-interval is at most limit days long, counting both of its ends, and every one but
  the last is exactly limit days long). A result is returned unless the dates are more
  than 106751 days apart; in every result the claim holds of the pairs of a start date
  and its end date, and every start date but the last has an end date.
\<close>

theorem C5_chunk_lengths:
  assumes "to_datetime start_date date_format = Inr (Timestamp_of_day sd)"
    and "to_datetime end_date date_format = Inr (Timestamp_of_day ed)"
    and "- 106751 \<le> sd" and "ed \<le> 106751"
    and "0 < limit" and "limit \<le> ed - sd"
  shows "106751 < ed - sd
         \<and> split_dates_by_limit to_datetime strftime start_date end_date limit date_format
             = Inl (if 106751 < limit then OverflowError else OutOfBoundsDatetime)
       \<or> ed - sd \<le> 106751
         \<and> (\<exists>ss es printed.
               split_timestamps (limit * NS_PER_DAY) (Timestamp_of_day sd) (Timestamp_of_day ed)
                 = Inr (Some ((ss, es), printed))
             \<and> split_dates_by_limit to_datetime strftime start_date end_date limit date_format =
                 Inr (Some [''start_dates'' \<mapsto> map (strftime date_format) ss,
                            ''end_dates'' \<mapsto> map (strftime date_format) es], printed)
             \<and> 0 < length es \<and> length es \<le> length ss
             \<and> ss ! 0 = Timestamp_of_day sd
             \<and> date_of (es ! 0) = sd + limit - 1
             \<and> (\<forall>i<length es. date_of (es ! i) - date_of (ss ! i) + 1 \<le> limit)
             \<and> (\<forall>i. Suc i < length ss \<longrightarrow>
                    i < length es \<and> date_of (es ! i) - date_of (ss ! i) + 1 = limit))"
proof (cases "ed - sd \<le> 106751")
  case fit: True
  have T: "Timedelta_days limit = Inr (limit * NS_PER_DAY)"
    using assms(5,6) fit by (intro Timedelta_days_ok) linarith+
  obtain ss es printed
    where r: "split_timestamps (limit * NS_PER_DAY) (Timestamp_of_day sd) (Timestamp_of_day ed)
                = Inr (Some ((ss, es), printed))"
    and n: "int (length ss) = - ((- (ed - sd)) div limit)"
    and s0: "ss ! 0 = Timestamp_of_day sd"
    and pos: "0 < length es"
    and s: "\<forall>i<length ss. date_of (ss ! i) = sd + int i * limit"
    and e: "\<forall>i<length es. date_of (es ! i) = min (sd + (int i + 1) * limit - 1) ed"
    and alt: "sd + (- ((- (ed - sd)) div limit)) * limit \<le> 106751
                \<and> length es = length ss \<and> printed = []
              \<or> 106751 < sd + (- ((- (ed - sd)) div limit)) * limit
                \<and> Suc (length es) = length ss \<and> printed = [critical_message]"
    using split_days_ex[OF assms(5,6,3,4) fit] by blast
  have d: "split_dates_by_limit to_datetime strftime start_date end_date limit date_format =
             Inr (Some [''start_dates'' \<mapsto> map (strftime date_format) ss,
                        ''end_dates'' \<mapsto> map (strftime date_format) es], printed)"
    using T assms(1,2) r by (rule split_dates_by_limit_Some)
  from alt have l: "length es \<le> length ss" and l': "length ss \<le> Suc (length es)" by auto
  have "date_of (es ! 0) = min (sd + (int 0 + 1) * limit - 1) ed" using e pos by blast
  with assms(6) have e0: "date_of (es ! 0) = sd + limit - 1" by simp
  have le: "\<forall>i<length es. date_of (es ! i) - date_of (ss ! i) + 1 \<le> limit"
  proof (intro allI impI)
    fix i assume i: "i < length es"
    with l have i': "i < length ss" by linarith
    have "date_of (es ! i) = min (sd + (int i + 1) * limit - 1) ed" using e i by blast
    moreover have "date_of (ss ! i) = sd + int i * limit" using s i' by blast
    ultimately show "date_of (es ! i) - date_of (ss ! i) + 1 \<le> limit"
      by (simp add: algebra_simps)
  qed
  have eq: "i < length es \<and> date_of (es ! i) - date_of (ss ! i) + 1 = limit"
    if i: "Suc i < length ss" for i
  proof -
    from i l' have ie: "i < length es" by linarith
    from i n have "int i + 1 < - ((- (ed - sd)) div limit)" by linarith
    with assms(5) have "(int i + 1) * limit \<le> ed - sd" by (rule before_last)
    then have "min (sd + (int i + 1) * limit - 1) ed = sd + (int i + 1) * limit - 1" by simp
    moreover have "date_of (es ! i) = min (sd + (int i + 1) * limit - 1) ed" using e ie by simp
    moreover have "date_of (ss ! i) = sd + int i * limit" using s i by simp
    ultimately have "date_of (es ! i) - date_of (ss ! i) + 1 = limit"
      by (simp add: algebra_simps)
    with ie show ?thesis by simp
  qed
  from fit r d pos l s0 e0 le eq show ?thesis by blast
next
  case False
  then have long: "106751 < ed - sd" by simp
  have "split_dates_by_limit to_datetime strftime start_date end_date limit date_format
          = Inl (if 106751 < limit then OverflowError else OutOfBoundsDatetime)"
  proof (cases "106751 < limit")
    case True
    then show ?thesis by (simp add: split_dates_by_limit_def Timedelta_days_raises)
  next
    case small: False
    have T: "Timedelta_days limit = Inr (limit * NS_PER_DAY)"
      using assms(5) small by (intro Timedelta_days_ok) linarith+
    have "Timestamp_of_day ed - Timestamp_of_day sd = (ed - sd) * NS_PER_DAY"
      by (simp add: Timestamp_of_day_def algebra_simps)
    moreover have "\<not> in_range ((ed - sd) * NS_PER_DAY)" using long by (simp add: in_range_day)
    ultimately have "\<not> in_range (Timestamp_of_day ed - Timestamp_of_day sd)" by simp
    then have "split_timestamps (limit * NS_PER_DAY) (Timestamp_of_day sd) (Timestamp_of_day ed)
                 = Inl OutOfBoundsDatetime"
      by (rule split_timestamps_span_raises)
    with T assms(1,2)
    have "split_dates_by_limit to_datetime strftime start_date end_date limit date_format
            = Inl OutOfBoundsDatetime"
      by (rule split_dates_by_limit_raises)
    with small show ?thesis by simp
  qed
  with long show ?thesis by blast
qed

theorem C5_witness:
  "pd_to_datetime ''01/01/17'' ''%m/%d/%y'' = Inr (Timestamp_of_day 17167)
   \<and> pd_to_datetime ''12/31/18'' ''%m/%d/%y'' = Inr (Timestamp_of_day 17896)
   \<and> (- 106751::int) \<le> 17167 \<and> (17896::int) \<le> 106751
   \<and> (0::int) < 90 \<and> (90::int) \<le> 17896 - 17167
   \<and> (\<exists>ss es printed.
           split_timestamps (90 * NS_PER_DAY) (Timestamp_of_day 17167) (Timestamp_of_day 17896)
             = Inr (Some ((ss, es), printed))
         \<and> split_dates_by_limit pd_to_datetime pd_strftime ''01/01/17'' ''12/31/18'' 90 ''%m/%d/%y'' =
             Inr (Some [''start_dates'' \<mapsto> map (pd_strftime ''%m/%d/%y'') ss,
                        ''end_dates'' \<mapsto> map (pd_strftime ''%m/%d/%y'') es], printed)
         \<and> 0 < length es \<and> length es \<le> length ss
         \<and> ss ! 0 = Timestamp_of_day 17167
         \<and> date_of (es ! 0) = 17167 + 90 - 1
         \<and> (\<forall>i<length es. date_of (es ! i) - date_of (ss ! i) + 1 \<le> 90)
         \<and> (\<forall>i. Suc i < length ss \<longrightarrow>
                i < length es \<and> date_of (es ! i) - date_of (ss ! i) + 1 = 90))"
proof -
  have h1: "(- 106751::int) \<le> 17167" and h2: "(17896::int) \<le> 106751"
    and h3: "(0::int) < 90" and h4: "(90::int) \<le> 17896 - 17167"
    by simp_all
  have fit: "\<not> (106751::int) < 17896 - 17167" by simp
  show ?thesis
    using C5_chunk_lengths[where to_datetime = pd_to_datetime and strftime = pd_strftime,
            OF parse_170101 parse_181231 h1 h2 h3 h4] parse_170101 parse_181231 h1 h2 h3 h4 fit
    by blast
qed

text \<open>
  \<^bold>\<open>C6\<close> (the call of the docstring: 1 January 2017 to 31 December 2018 with a limit of
  90 days in the format \<^verbatim>\<open>%m/%d/%y\<close> gives the nine start dates and nine end dates
  listed there). Nothing is printed.
\<close>

theorem C6_docstring_example:
  "split_dates_by_limit pd_to_datetime pd_strftime ''01/01/17'' ''12/31/18'' 90 ''%m/%d/%y'' =
     Inr (Some [''start_dates'' \<mapsto>
                  [''01/01/17'', ''04/01/17'', ''06/30/17'', ''09/28/17'', ''12/27/17'',
                   ''03/27/18'', ''06/25/18'', ''09/23/18'', ''12/22/18''],
                ''end_dates'' \<mapsto>
                  [''03/31/17'', ''06/29/17'', ''09/27/17'', ''12/26/17'', ''03/26/18'',
                   ''06/24/18'', ''09/22/18'', ''12/21/18'', ''12/31/18'']], [])"
  by (simp only: split_dates_by_limit_Some[where to_datetime = pd_to_datetime
        and strftime = pd_strftime, OF days_90 parse_170101 parse_181231 split_docstring]
        render_docstring_starts render_docstring_ends)

text \<open>
  \<^bold>\<open>C7\<close> (a limit that is not positive is rejected with an error). The function has no
  check of the limit. What holds is narrower: with a limit of zero, start not after end
  and the two at most 106751 days apart, the division of line 153 raises, outside the
  \<^verbatim>\<open>try\<close> block, so the call fails and returns nothing.
\<close>

theorem C7_zero_limit:
  assumes "to_datetime start_date date_format = Inr (Timestamp_of_day sd)"
    and "to_datetime end_date date_format = Inr (Timestamp_of_day ed)"
    and "- 106751 \<le> sd" and "sd \<le> ed" and "ed \<le> 106751" and "ed - sd \<le> 106751"
  shows "split_dates_by_limit to_datetime strftime start_date end_date 0 date_format
           = Inl ZeroDivisionError"
proof -
  have T: "Timedelta_days 0 = Inr 0" by (simp add: Timedelta_days_def in_range_0)
  have sd_hi: "sd \<le> 106751" using assms(4,5) by linarith
  have rs: "in_range (Timestamp_of_day sd)"
    using assms(3) sd_hi by (simp add: in_range_Timestamp_of_day)
  have rb: "in_range (Timestamp_of_day sd + - 1)"
    using assms(3) sd_hi by (rule in_range_before_midnight)
  have "Timestamp_of_day ed - Timestamp_of_day sd = (ed - sd) * NS_PER_DAY"
    by (simp add: Timestamp_of_day_def algebra_simps)
  moreover have "in_range ((ed - sd) * NS_PER_DAY)"
    using assms(4,6) by (simp add: in_range_day)
  ultimately have rd: "in_range (Timestamp_of_day ed - Timestamp_of_day sd)" by simp
  have D: "0 < NS_PER_DAY" using NS_PER_DAY_gt1 by simp
  have "sd * NS_PER_DAY \<le> ed * NS_PER_DAY" using assms(4) D by (simp add: mult_right_mono)
  then have ord: "\<not> 0 > Timestamp_of_day ed - Timestamp_of_day sd"
    by (simp add: Timestamp_of_day_def)
  have a0: "Timestamp_add (Timestamp_of_day sd) 0 = Inr (Timestamp_of_day sd)"
    using rs by (simp add: Timestamp_add_def)
  have a1: "Timestamp_add (Timestamp_of_day sd) (- 1) = Inr (Timestamp_of_day sd + - 1)"
    using rb by (rule Timestamp_add_ok)
  have "split_timestamps 0 (Timestamp_of_day sd) (Timestamp_of_day ed) = Inl ZeroDivisionError"
    using ord by (simp add: split_timestamps_def Timestamp_diff_ok[OF rd] a0 a1 ceil_div_def)
  with T assms(1,2) show ?thesis by (rule split_dates_by_limit_raises)
qed

theorem C7_witness:
  "pd_to_datetime ''01/01/17'' ''%m/%d/%y'' = Inr (Timestamp_of_day 17167)
   \<and> pd_to_datetime ''01/15/17'' ''%m/%d/%y'' = Inr (Timestamp_of_day 17181)
   \<and> (- 106751::int) \<le> 17167 \<and> (17167::int) \<le> 17181 \<and> (17181::int) \<le> 106751
   \<and> (17181::int) - 17167 \<le> 106751
   \<and> split_dates_by_limit pd_to_datetime pd_strftime ''01/01/17'' ''01/15/17'' 0 ''%m/%d/%y''
       = Inl ZeroDivisionError"
proof -
  have h1: "(- 106751::int) \<le> 17167" and h2: "(17167::int) \<le> 17181"
    and h3: "(17181::int) \<le> 106751" and h4: "(17181::int) - 17167 \<le> 106751"
    by simp_all
  show ?thesis
    using C7_zero_limit[where to_datetime = pd_to_datetime and strftime = pd_strftime,
            OF parse_170101 parse_170115 h1 h2 h3 h4] parse_170101 parse_170115 h1 h2 h3 h4
    by blast
qed

text \<open>
  A negative limit is not rejected: with start equal to end and a limit of \<open>-1\<close> the test
  of line 140 fails, the chunk count is 0, and the dictionary holds the one chunk that was
  set up before the loop, whose end lies before its start.
\<close>

theorem C7_negative_limit_returns:
  "split_dates_by_limit pd_to_datetime pd_strftime ''01/01/17'' ''01/01/17'' (- 1) ''%m/%d/%y'' =
     Inr (Some [''start_dates'' \<mapsto> [''01/01/17''], ''end_dates'' \<mapsto> [''12/30/16'']], [])"
  by (simp only: split_dates_by_limit_Some[where to_datetime = pd_to_datetime
        and strftime = pd_strftime, OF days_minus_1 parse_170101 parse_170101 split_negative_limit]
        render_one_month render_negative_limit)

text \<open>
  \<^bold>\<open>C8\<close> (when the start date or the end date does not parse under the format, the call
  fails with the parser's error and returns nothing). This holds for a limit that
  \<^verbatim>\<open>pd.Timedelta\<close> accepts, of at most 106751 days either way. Lines 135 and 136
  stand outside every \<^verbatim>\<open>try\<close> block; the error is the one
  \<^verbatim>\<open>pd.to_datetime\<close> raised, a \<^verbatim>\<open>ValueError\<close> in the library.
\<close>

theorem C8_parse_error:
  assumes "- 106751 \<le> limit" and "limit \<le> 106751"
    and "(\<exists>err. to_datetime start_date date_format = Inl err)
           \<or> (\<exists>err. to_datetime end_date date_format = Inl err)"
  shows "\<exists>err. split_dates_by_limit to_datetime strftime start_date end_date limit date_format = Inl err
           \<and> (to_datetime start_date date_format = Inl err
                \<or> to_datetime end_date date_format = Inl err)"
proof -
  have T: "Timedelta_days limit = Inr (limit * NS_PER_DAY)"
    using assms(1,2) by (rule Timedelta_days_ok)
  show ?thesis
    using assms(3) by (auto simp add: split_dates_by_limit_def T split: sum.splits)
qed

theorem C8_witness:
  "(- 106751::int) \<le> 90 \<and> (90::int) \<le> 106751
   \<and> ((\<exists>err. pd_to_datetime ''2017-01-01'' ''%m/%d/%y'' = Inl err)
       \<or> (\<exists>err. pd_to_datetime ''12/31/18'' ''%m/%d/%y'' = Inl err))
   \<and> split_dates_by_limit pd_to_datetime pd_strftime ''2017-01-01'' ''12/31/18'' 90 ''%m/%d/%y''
       = Inl ValueError"
proof -
  have h1: "(- 106751::int) \<le> 90" and h2: "(90::int) \<le> 106751" by simp_all
  have h: "(\<exists>err. pd_to_datetime ''2017-01-01'' ''%m/%d/%y'' = Inl err)
             \<or> (\<exists>err. pd_to_datetime ''12/31/18'' ''%m/%d/%y'' = Inl err)"
    using parse_iso_fails by blast
  obtain err where r: "split_dates_by_limit pd_to_datetime pd_strftime ''2017-01-01'' ''12/31/18'' 90
                         ''%m/%d/%y'' = Inl err"
    and w: "pd_to_datetime ''2017-01-01'' ''%m/%d/%y'' = Inl err
            \<or> pd_to_datetime ''12/31/18'' ''%m/%d/%y'' = Inl err"
    using C8_parse_error[where to_datetime = pd_to_datetime and strftime = pd_strftime,
            OF h1 h2 h]
    by blast
  from w have "err = ValueError" by (simp add: parse_iso_fails parse_181231)
  with h1 h2 h r show ?thesis by simp
qed

text \<open>
  As the claim is stated it fails for a larger limit: line 132 converts the limit before
  line 135 parses the start date, so the error is that of the limit.
\<close>

theorem C8_limit_raises_first:
  "split_dates_by_limit pd_to_datetime pd_strftime ''2017-01-01'' ''12/31/18'' 106752 ''%m/%d/%y'' =
     Inl OverflowError"
  by (simp add: split_dates_by_limit_def days_106752)

text \<open>
  \<^bold>\<open>C9\<close> (the function is deterministic and has no input or output). As a function of
  its arguments and of the two library calls the model is deterministic by construction.
  Of the effects, the only one in the source is the \<^verbatim>\<open>print\<close> of line 171. It
  does not happen when end + limit - 1 day is still a Timestamp (no later than 11 April
  2262), whatever the limit: the call then raises or returns with nothing printed.
\<close>

theorem C9_prints_nothing_in_range:
  assumes "to_datetime start_date date_format = Inr (Timestamp_of_day sd)"
    and "to_datetime end_date date_format = Inr (Timestamp_of_day ed)"
    and "- 106751 \<le> sd" and "ed \<le> 106751"
    and "ed + limit \<le> 106752"
  shows "(\<exists>err. split_dates_by_limit to_datetime strftime start_date end_date limit date_format
                  = Inl err)
       \<or> (\<exists>returned. split_dates_by_limit to_datetime strftime start_date end_date limit date_format
                  = Inr (returned, []))"
proof (cases "Timedelta_days limit")
  case (Inl err)
  then show ?thesis by (simp add: split_dates_by_limit_def)
next
  case (Inr L)
  then have L: "L = limit * NS_PER_DAY" by (simp add: Timedelta_days_def split: if_splits)
  show ?thesis
  proof (cases "split_timestamps L (Timestamp_of_day sd) (Timestamp_of_day ed)")
    case (Inl err)
    with Inr assms(1,2)
    have "split_dates_by_limit to_datetime strftime start_date end_date limit date_format = Inl err"
      by (rule split_dates_by_limit_raises)
    then show ?thesis by blast
  next
    case res: (Inr r)
    show ?thesis
    proof (cases r)
      case None
      with res Inr assms(1,2)
      have "split_dates_by_limit to_datetime strftime start_date end_date limit date_format
              = Inr (None, [])"
        by (intro split_dates_by_limit_None) simp_all
      then show ?thesis by blast
    next
      case (Some x)
      obtain ss es printed where x: "x = ((ss, es), printed)" by (metis prod.exhaust)
      have r: "split_timestamps L (Timestamp_of_day sd) (Timestamp_of_day ed)
                 = Inr (Some ((ss, es), printed))"
        using res Some x by simp
      have silent: "printed = []"
      proof (cases "0 < limit")
        case False
        have D: "0 < NS_PER_DAY" using NS_PER_DAY_gt1 by simp
        from False have "limit * NS_PER_DAY \<le> 0" using D by (simp add: mult_le_0_iff)
        then have "L \<le> 0" by (simp only: L)
        then show ?thesis using r by (rule split_timestamps_nonpositive)
      next
        case lim: True
        have D: "0 < NS_PER_DAY" using NS_PER_DAY_gt1 by simp
        from r have rd: "in_range (Timestamp_of_day ed - Timestamp_of_day sd)"
          and sp: "L \<le> Timestamp_of_day ed - Timestamp_of_day sd"
          using split_timestamps_SomeD by blast+
        have diff: "Timestamp_of_day ed - Timestamp_of_day sd = (ed - sd) * NS_PER_DAY"
          by (simp add: Timestamp_of_day_def algebra_simps)
        from rd have fit: "ed - sd \<le> 106751" by (simp add: diff in_range_day)
        from sp have "limit * NS_PER_DAY \<le> (ed - sd) * NS_PER_DAY" by (simp only: L diff)
        then have span: "limit \<le> ed - sd" using D by simp
        define c where "c = - ((- (ed - sd)) div limit)"
        have "(c - 1) * limit < ed - sd" unfolding c_def using lim by (rule ceil_lower)
        then have "c * limit < ed - sd + limit" by (simp add: algebra_simps)
        with assms(5) have top: "sd + c * limit \<le> 106751" by linarith
        obtain ss' es' printed'
          where r': "split_timestamps (limit * NS_PER_DAY) (Timestamp_of_day sd)
                       (Timestamp_of_day ed) = Inr (Some ((ss', es'), printed'))"
          and alt: "sd + c * limit \<le> 106751 \<and> length es' = length ss' \<and> printed' = []
                    \<or> 106751 < sd + c * limit \<and> Suc (length es') = length ss'
                        \<and> printed' = [critical_message]"
          unfolding c_def using split_days_ex[OF lim span assms(3,4) fit] by blast
        from alt top have "printed' = []" by auto
        moreover from r r' have "printed = printed'" by (simp add: L)
        ultimately show ?thesis by simp
      qed
      have "split_dates_by_limit to_datetime strftime start_date end_date limit date_format =
              Inr (Some [''start_dates'' \<mapsto> map (strftime date_format) ss,
                         ''end_dates'' \<mapsto> map (strftime date_format) es], printed)"
        using Inr assms(1,2) r by (rule split_dates_by_limit_Some)
      with silent show ?thesis by blast
    qed
  qed
qed

theorem C9_witness:
  "pd_to_datetime ''01/01/17'' ''%m/%d/%y'' = Inr (Timestamp_of_day 17167)
   \<and> pd_to_datetime ''12/31/18'' ''%m/%d/%y'' = Inr (Timestamp_of_day 17896)
   \<and> (- 106751::int) \<le> 17167 \<and> (17896::int) \<le> 106751
   \<and> (17896::int) + 90 \<le> 106752
   \<and> ((\<exists>err. split_dates_by_limit pd_to_datetime pd_strftime ''01/01/17'' ''12/31/18'' 90
                  ''%m/%d/%y'' = Inl err)
       \<or> (\<exists>returned. split_dates_by_limit pd_to_datetime pd_strftime ''01/01/17'' ''12/31/18'' 90
                  ''%m/%d/%y'' = Inr (returned, [])))"
proof -
  have h1: "(- 106751::int) \<le> 17167" and h2: "(17896::int) \<le> 106751"
    and h3: "(17896::int) + 90 \<le> 106752"
    by simp_all
  show ?thesis
    using C9_prints_nothing_in_range[where to_datetime = pd_to_datetime
            and strftime = pd_strftime, OF parse_170101 parse_181231 h1 h2 h3]
          parse_170101 parse_181231 h1 h2 h3
    by blast
qed

text \<open>
  As the claim is stated it fails at the end of the Timestamp range, with the limit of 30
  days and the format that \<^verbatim>\<open>main.py\<close> calls the function with: from 1 March 2262
  to 11 April 2262 the round of the loop raises on line 160 and the handler prints.
\<close>

theorem C9_handler_prints:
  "split_dates_by_limit pd_to_datetime pd_strftime ''22620301'' ''22620411'' 30 ''%Y%m%d'' =
     Inr (Some [''start_dates'' \<mapsto> [''22620301'', ''22620331''],
                ''end_dates'' \<mapsto> [''22620330'']],
          [''Critical Failed to split start and end dates for API calls.''])"
  by (simp only: split_dates_by_limit_Some[where to_datetime = pd_to_datetime
        and strftime = pd_strftime, OF days_30 parse_22620301 parse_22620411 split_2262_by_30]
        render_2262_by_30 critical_message_def)

text \<open>
  \<^bold>\<open>C10\<close> (when end - start is an exact multiple \<open>k * limit\<close> with \<open>k\<close> positive, the
  result has exactly \<open>k\<close> sub-intervals, each exactly limit days long; the last end date is
  the original end less one day, and the original end date lies in no sub-interval). This
  holds when the dates are at most 106751 days apart; the last \<^verbatim>\<open>new_start_date\<close>
  is then the end date itself, so the loop does not raise and nothing is printed.
\<close>

theorem C10_exact_multiple:
  assumes "to_datetime start_date date_format = Inr (Timestamp_of_day sd)"
    and "to_datetime end_date date_format = Inr (Timestamp_of_day ed)"
    and "- 106751 \<le> sd" and "ed \<le> 106751" and "ed - sd \<le> 106751"
    and "0 < limit" and "0 < k" and "ed - sd = k * limit"
  shows "\<exists>ss es.
           split_timestamps (limit * NS_PER_DAY) (Timestamp_of_day sd) (Timestamp_of_day ed)
             = Inr (Some ((ss, es), []))
         \<and> split_dates_by_limit to_datetime strftime start_date end_date limit date_format =
             Inr (Some [''start_dates'' \<mapsto> map (strftime date_format) ss,
                        ''end_dates'' \<mapsto> map (strftime date_format) es], [])
         \<and> int (length ss) = k \<and> int (length es) = k
         \<and> (\<forall>i<length ss. date_of (es ! i) - date_of (ss ! i) + 1 = limit)
         \<and> date_of (last es) = ed - 1
         \<and> (\<forall>i<length ss. date_of (es ! i) < ed)"
proof -
  have "1 * limit \<le> k * limit" using assms(6,7) by (intro mult_right_mono) simp_all
  then have span: "limit \<le> ed - sd" using assms(8) by simp
  have T: "Timedelta_days limit = Inr (limit * NS_PER_DAY)"
    using assms(5,6) span by (intro Timedelta_days_ok) linarith+
  have nz: "limit \<noteq> 0" using assms(6) by simp
  have "(- k) * limit div limit = - k" using nz by (rule nonzero_mult_div_cancel_right)
  then have "(- (k * limit)) div limit = - k" by (simp only: mult_minus_left)
  then have ck: "- ((- (ed - sd)) div limit) = k" by (simp only: assms(8) minus_minus)
  obtain ss es printed
    where r: "split_timestamps (limit * NS_PER_DAY) (Timestamp_of_day sd) (Timestamp_of_day ed)
                = Inr (Some ((ss, es), printed))"
    and nk: "int (length ss) = k"
    and s: "\<forall>i<length ss. date_of (ss ! i) = sd + int i * limit"
    and e: "\<forall>i<length es. date_of (es ! i) = min (sd + (int i + 1) * limit - 1) ed"
    and alt: "sd + k * limit \<le> 106751 \<and> length es = length ss \<and> printed = []
              \<or> 106751 < sd + k * limit \<and> Suc (length es) = length ss
                  \<and> printed = [critical_message]"
    using split_days_ex[OF assms(6) span assms(3,4,5)] unfolding ck by blast
  have "sd + k * limit = ed" using assms(8) by linarith
  with assms(4) have "sd + k * limit \<le> 106751" by simp
  with alt have l: "length es = length ss" and p: "printed = []" by auto
  have d: "split_dates_by_limit to_datetime strftime start_date end_date limit date_format =
             Inr (Some [''start_dates'' \<mapsto> map (strftime date_format) ss,
                        ''end_dates'' \<mapsto> map (strftime date_format) es], printed)"
    using T assms(1,2) r by (rule split_dates_by_limit_Some)
  have full: "date_of (es ! i) = sd + (int i + 1) * limit - 1" if i: "i < length ss" for i
  proof -
    from i nk have "int i + 1 \<le> k" by linarith
    then have "(int i + 1) * limit \<le> k * limit" using assms(6) by (simp add: mult_right_mono)
    then have "min (sd + (int i + 1) * limit - 1) ed = sd + (int i + 1) * limit - 1"
      using assms(8) by simp
    moreover have "date_of (es ! i) = min (sd + (int i + 1) * limit - 1) ed"
      using e i l by simp
    ultimately show ?thesis by simp
  qed
  have eq: "\<forall>i<length ss. date_of (es ! i) - date_of (ss ! i) + 1 = limit"
  proof (intro allI impI)
    fix i assume i: "i < length ss"
    have "date_of (ss ! i) = sd + int i * limit" using s i by simp
    with full[OF i] show "date_of (es ! i) - date_of (ss ! i) + 1 = limit"
      by (simp add: algebra_simps)
  qed
  have lt: "\<forall>i<length ss. date_of (es ! i) < ed"
  proof (intro allI impI)
    fix i assume i: "i < length ss"
    from i nk have "int i + 1 \<le> k" by linarith
    then have "(int i + 1) * limit \<le> k * limit" using assms(6) by (simp add: mult_right_mono)
    with full[OF i] assms(8) show "date_of (es ! i) < ed" by linarith
  qed
  from nk assms(7) have pos: "0 < length ss" by linarith
  then have ne: "es \<noteq> []" using l by auto
  have li: "length es - 1 < length ss" using pos l by simp
  have "last es = es ! (length es - 1)" using ne by (rule last_conv_nth)
  then have "date_of (last es) = sd + (int (length es - 1) + 1) * limit - 1"
    using full[OF li] by simp
  moreover have "int (length es - 1) + 1 = k" using nk l pos by linarith
  ultimately have la: "date_of (last es) = ed - 1" using assms(8) by simp
  from r d p nk l eq la lt show ?thesis by auto
qed

theorem C10_witness:
  "pd_to_datetime ''01/01/17'' ''%m/%d/%y'' = Inr (Timestamp_of_day 17167)
   \<and> pd_to_datetime ''03/02/17'' ''%m/%d/%y'' = Inr (Timestamp_of_day 17227)
   \<and> (- 106751::int) \<le> 17167 \<and> (17227::int) \<le> 106751 \<and> (17227::int) - 17167 \<le> 106751
   \<and> (0::int) < 30 \<and> (0::int) < 2 \<and> (17227::int) - 17167 = 2 * 30
   \<and> (\<exists>ss es.
           split_timestamps (30 * NS_PER_DAY) (Timestamp_of_day 17167) (Timestamp_of_day 17227)
             = Inr (Some ((ss, es), []))
         \<and> split_dates_by_limit pd_to_datetime pd_strftime ''01/01/17'' ''03/02/17'' 30 ''%m/%d/%y'' =
             Inr (Some [''start_dates'' \<mapsto> map (pd_strftime ''%m/%d/%y'') ss,
                        ''end_dates'' \<mapsto> map (pd_strftime ''%m/%d/%y'') es], [])
         \<and> int (length ss) = 2 \<and> int (length es) = 2
         \<and> (\<forall>i<length ss. date_of (es ! i) - date_of (ss ! i) + 1 = 30)
         \<and> date_of (last es) = 17227 - 1
         \<and> (\<forall>i<length ss. date_of (es ! i) < 17227))"
proof -
  have h1: "(- 106751::int) \<le> 17167" and h2: "(17227::int) \<le> 106751"
    and h3: "(17227::int) - 17167 \<le> 106751"
    and h4: "(0::int) < 30" and h5: "(0::int) < 2" and h6: "(17227::int) - 17167 = 2 * 30"
    by simp_all
  show ?thesis
    using C10_exact_multiple[where to_datetime = pd_to_datetime and strftime = pd_strftime,
            OF parse_170101 parse_170302 h1 h2 h3 h4 h5 h6]
          parse_170101 parse_170302 h1 h2 h3 h4 h5 h6
    by blast
qed

text \<open>
  As the claim is stated it fails for dates further apart: from 8 September 1701 to 27
  March 2030 is 120000 days, twice a limit of 60000, and the subtraction of line 137
  raises, since the span is no Timedelta.
\<close>

theorem C10_span_too_long:
  "split_dates_by_limit pd_to_datetime pd_strftime ''17010908'' ''20300327'' 60000 ''%Y%m%d'' =
     Inl OutOfBoundsDatetime"
  by (simp only: split_dates_by_limit_raises[where to_datetime = pd_to_datetime
        and strftime = pd_strftime, OF days_60000 parse_17010908 parse_20300327 split_span_too_long])

end
